theory Spec2Isabelle
  imports Complex_Main
begin

section \<open>The rotating ASCII renderer: values\<close>

text \<open>
  The development follows the script that \<open>RotatingASCIIOperator.execute\<close> generates
  (\<open>rotate_point\<close>, \<open>bresenham\<close> and the animation loop) and the operator itself.
  Python's unbounded integers are \<open>int\<close>. Python's floats are modelled by the reals:
  every statement about a float operation below is a statement of exact arithmetic.
\<close>

datatype error = IndexError | TypeError | ValueError | ZeroDivisionError

type_synonym color = "int \<times> int \<times> int"

text \<open>
  A point of a rasterized line: the tuple \<open>(x, y)\<close> when the second component is
  \<open>None\<close>, the tuple \<open>(x, y, (cr, cg, cb))\<close> otherwise.
\<close>

type_synonym point = "(int \<times> int) \<times> color option"

text \<open>
  \<open>int(f)\<close> of a float: the fractional part is dropped, towards zero.
\<close>

definition py_int :: "real \<Rightarrow> int" where
  "py_int r = (if r < 0 then - \<lfloor>- r\<rfloor> else \<lfloor>r\<rfloor>)"

section \<open>rotate_point\<close>

definition rotate_point ::
  "real \<Rightarrow> real \<Rightarrow> real \<Rightarrow> real \<Rightarrow> real \<Rightarrow> real \<Rightarrow> real \<times> real \<times> real" where
  "rotate_point x y z angle_x angle_y angle_z =
     (let cos_x = cos angle_x;
          sin_x = sin angle_x;
          y1 = y * cos_x - z * sin_x;
          z1 = y * sin_x + z * cos_x;
          cos_y = cos angle_y;
          sin_y = sin angle_y;
          x2 = x * cos_y + z1 * sin_y;
          z2 = - x * sin_y + z1 * cos_y;
          cos_z = cos angle_z;
          sin_z = sin angle_z;
          x3 = x2 * cos_z - y1 * sin_z;
          y3 = x2 * sin_z + y1 * cos_z
      in (x3, y3, z2))"

section \<open>bresenham\<close>

text \<open>
  One channel of the interpolated colour:
  \<open>int(color1[c] + fraction * (color2[c] - color1[c]))\<close>.
\<close>

definition channel :: "real \<Rightarrow> int \<Rightarrow> int \<Rightarrow> int" where
  "channel fraction c1 c2 = py_int (of_int c1 + fraction * of_int (c2 - c1))"

text \<open>
  The tuple appended to \<open>points\<close> in one iteration. \<open>use_col\<close> holds when both
  colours are given.
\<close>

definition emit :: "color option \<Rightarrow> color option \<Rightarrow> int \<Rightarrow> int \<Rightarrow> int \<Rightarrow> int \<Rightarrow> point" where
  "emit color1 color2 steps k current_x current_y =
     (case (color1, color2) of
        (Some (r1, g1, b1), Some (r2, g2, b2)) \<Rightarrow>
          (let fraction = of_int k / of_int steps;
               cr = channel fraction r1 r2;
               cg = channel fraction g1 g2;
               cb = channel fraction b1 b2
           in ((current_x, current_y), Some (cr, cg, cb)))
      | _ \<Rightarrow> ((current_x, current_y), None))"

text \<open>
  The \<open>while True\<close> loop of \<open>bresenham\<close>, with the local variables it changes
  (\<open>points\<close>, \<open>err\<close>, \<open>k\<close>, \<open>current_x\<close>, \<open>current_y\<close>) as the last
  arguments. \<open>None\<close> is a loop that never reaches its \<open>break\<close>.
\<close>

partial_function (option) bresenham_loop ::
  "color option \<Rightarrow> color option \<Rightarrow> int \<Rightarrow> int \<Rightarrow> int \<Rightarrow> int \<Rightarrow> int \<Rightarrow> int \<Rightarrow> int \<Rightarrow>
   point list \<Rightarrow> int \<Rightarrow> int \<Rightarrow> int \<Rightarrow> int \<Rightarrow> point list option" where
  "bresenham_loop color1 color2 x2 y2 dx dy sx sy steps points err k current_x current_y =
     (let points1 = points @ [emit color1 color2 steps k current_x current_y] in
      if current_x = x2 \<and> current_y = y2 then Some points1
      else
        let e2 = 2 * err;
            err1 = (if e2 > - dy then err - dy else err);
            current_x1 = (if e2 > - dy then current_x + sx else current_x);
            err2 = (if e2 < dx then err1 + dx else err1);
            current_y1 = (if e2 < dx then current_y + sy else current_y)
        in bresenham_loop color1 color2 x2 y2 dx dy sx sy steps points1 err2 (k + 1)
             current_x1 current_y1)"

definition bresenham ::
  "int \<Rightarrow> int \<Rightarrow> int \<Rightarrow> int \<Rightarrow> color option \<Rightarrow> color option \<Rightarrow> point list option" where
  "bresenham x1 y1 x2 y2 color1 color2 =
     (let dx = abs (x2 - x1);
          dy = abs (y2 - y1);
          sx = (if x1 < x2 then 1 else - 1);
          sy = (if y1 < y2 then 1 else - 1);
          err = dx - dy;
          steps = max (max dx dy) 1
      in bresenham_loop color1 color2 x2 y2 dx dy sx sy steps [] err 0 x1 y1)"

section \<open>The generated script: constants and mesh data\<close>

record config =
  WIDTH :: int
  HEIGHT :: int
  SCALE_X :: real
  SCALE_Y :: real
  LINE_CHAR :: string
  PAUSE :: real
  DIST :: real
  ROT_SPEED_X :: real
  ROT_SPEED_Y :: real
  ROT_SPEED_Z :: real

definition TRANSLATE_X :: "config \<Rightarrow> int" where
  "TRANSLATE_X cfg = WIDTH cfg div 2"

definition TRANSLATE_Y :: "config \<Rightarrow> int" where
  "TRANSLATE_Y cfg = HEIGHT cfg div 2"

text \<open>The constants generated from the default values of the properties.\<close>

definition default_config :: config where
  "default_config =
     \<lparr>WIDTH = 80, HEIGHT = 24, SCALE_X = 20, SCALE_Y = 10, LINE_CHAR = ''#'',
      PAUSE = 5 / 100, DIST = 4, ROT_SPEED_X = 3 / 100, ROT_SPEED_Y = 2 / 100,
      ROT_SPEED_Z = 1 / 100\<rparr>"

text \<open>
  An entry of \<open>vertices\<close> (and of \<open>rotated\<close>): the tuple \<open>(x, y, z)\<close> when the
  second component is \<open>None\<close>, the tuple \<open>(x, y, z, r, g, b)\<close> otherwise.
\<close>

type_synonym vertex = "(real \<times> real \<times> real) \<times> color option"

text \<open>\<open>xs[i]\<close>: a negative index counts from the end, an index out of range raises.\<close>

definition py_get :: "'a list \<Rightarrow> int \<Rightarrow> error + 'a" where
  "py_get xs i =
     (if 0 \<le> i \<and> i < int (length xs) then Inr (xs ! nat i)
      else if i < 0 \<and> - int (length xs) \<le> i then Inr (xs ! nat (int (length xs) + i))
      else Inl IndexError)"

text \<open>
  A computation of the frame either does not return (\<open>None\<close>), raises
  (\<open>Some (Inl e)\<close>) or returns a value (\<open>Some (Inr v)\<close>).
\<close>

definition on_value :: "error + 'a \<Rightarrow> ('a \<Rightarrow> (error + 'b) option) \<Rightarrow> (error + 'b) option" where
  "on_value r f = (case r of Inl e \<Rightarrow> Some (Inl e) | Inr v \<Rightarrow> f v)"

section \<open>The frame: rotation, projection, compositing\<close>

text \<open>\<open>use_colors = len(vertices[0]) > 3 if vertices else False\<close>\<close>

definition use_colors_of :: "vertex list \<Rightarrow> bool" where
  "use_colors_of vertices = (case vertices of [] \<Rightarrow> False | v # _ \<Rightarrow> snd v \<noteq> None)"

text \<open>
  The loop over \<open>vertices\<close>. Without colours the whole tuple is unpacked into the
  call of \<open>rotate_point\<close>, which takes six arguments: a six-element vertex raises there.
\<close>

fun rotate_all :: "bool \<Rightarrow> vertex list \<Rightarrow> real \<Rightarrow> real \<Rightarrow> real \<Rightarrow> error + vertex list" where
  "rotate_all use_colors [] angle_x angle_y angle_z = Inr []"
| "rotate_all use_colors (((x, y, z), rest) # vertices) angle_x angle_y angle_z =
     (if \<not> use_colors \<and> rest \<noteq> None then Inl TypeError
      else
        (case rotate_all use_colors vertices angle_x angle_y angle_z of
           Inl e \<Rightarrow> Inl e
         | Inr rotated \<Rightarrow> Inr ((rotate_point x y z angle_x angle_y angle_z, rest) # rotated)))"

text \<open>The perspective projection of one rotated vertex; the division raises at zero.\<close>

definition project_point :: "config \<Rightarrow> real \<times> real \<times> real \<Rightarrow> error + int \<times> int" where
  "project_point cfg r =
     (case r of (rx, ry, rz) \<Rightarrow>
        if DIST cfg + rz + 2 = 0 then Inl ZeroDivisionError
        else
          (let factor = DIST cfg / (DIST cfg + rz + 2);
               px = py_int (of_int (TRANSLATE_X cfg) + factor * rx * SCALE_X cfg);
               py = py_int (of_int (TRANSLATE_Y cfg) - factor * ry * SCALE_Y cfg)
           in Inr (px, py)))"

fun project_all :: "config \<Rightarrow> vertex list \<Rightarrow> error + (int \<times> int) list" where
  "project_all cfg [] = Inr []"
| "project_all cfg (v # rotated) =
     (case project_point cfg (fst v) of
        Inl e \<Rightarrow> Inl e
      | Inr p \<Rightarrow>
          (case project_all cfg rotated of
             Inl e \<Rightarrow> Inl e
           | Inr projected \<Rightarrow> Inr (p # projected)))"

text \<open>\<open>0 <= px < WIDTH and 0 <= py < HEIGHT\<close>\<close>

definition in_bounds :: "config \<Rightarrow> int \<Rightarrow> int \<Rightarrow> bool" where
  "in_bounds cfg px py = (0 \<le> px \<and> px < WIDTH cfg \<and> 0 \<le> py \<and> py < HEIGHT cfg)"

text \<open>
  The loop over \<open>line_points\<close> in colour mode; \<open>px, py, col = pt\<close> raises on a
  tuple of two.
\<close>

fun plot_colored ::
  "config \<Rightarrow> (int \<times> int \<rightharpoonup> color) \<Rightarrow> point list \<Rightarrow> error + (int \<times> int \<rightharpoonup> color)" where
  "plot_colored cfg object_points [] = Inr object_points"
| "plot_colored cfg object_points (((px, py), None) # line_points) = Inl ValueError"
| "plot_colored cfg object_points (((px, py), Some col) # line_points) =
     plot_colored cfg
       (if in_bounds cfg px py then object_points((px, py) \<mapsto> col) else object_points)
       line_points"

text \<open>
  The loop over \<open>line_points\<close> without colours; \<open>px, py = pt\<close> raises on a tuple
  of three.
\<close>

fun plot_plain :: "config \<Rightarrow> (int \<times> int) set \<Rightarrow> point list \<Rightarrow> error + (int \<times> int) set" where
  "plot_plain cfg object_points [] = Inr object_points"
| "plot_plain cfg object_points (((px, py), Some col) # line_points) = Inl ValueError"
| "plot_plain cfg object_points (((px, py), None) # line_points) =
     plot_plain cfg
       (if in_bounds cfg px py then insert (px, py) object_points else object_points)
       line_points"

text \<open>
  The line of one edge in colour mode. \<open>rotated[i][3:]\<close> is the empty tuple for a
  vertex of three elements, and \<open>color1[0]\<close> then raises inside \<open>bresenham\<close>.
\<close>

definition colored_line ::
  "vertex list \<Rightarrow> (int \<times> int) list \<Rightarrow> int \<times> int \<Rightarrow> (error + point list) option" where
  "colored_line rotated projected e =
     (case e of (i, j) \<Rightarrow>
        on_value (py_get rotated i) (\<lambda>vi.
        on_value (py_get rotated j) (\<lambda>vj.
        on_value (py_get projected i) (\<lambda>p1.
        on_value (py_get projected j) (\<lambda>p2.
          (case (snd vi, snd vj) of
             (Some color1, Some color2) \<Rightarrow>
               map_option Inr
                 (bresenham (fst p1) (snd p1) (fst p2) (snd p2) (Some color1) (Some color2))
           | _ \<Rightarrow> Some (Inl IndexError)))))))"

definition plain_line :: "(int \<times> int) list \<Rightarrow> int \<times> int \<Rightarrow> (error + point list) option" where
  "plain_line projected e =
     (case e of (i, j) \<Rightarrow>
        on_value (py_get projected i) (\<lambda>p1.
        on_value (py_get projected j) (\<lambda>p2.
          map_option Inr (bresenham (fst p1) (snd p1) (fst p2) (snd p2) None None))))"

text \<open>The loop over \<open>edges\<close>, with \<open>object_points\<close> a dict (colour mode).\<close>

fun collect_colored ::
  "config \<Rightarrow> vertex list \<Rightarrow> (int \<times> int) list \<Rightarrow> (int \<times> int) list \<Rightarrow>
   (int \<times> int \<rightharpoonup> color) \<Rightarrow> (error + (int \<times> int \<rightharpoonup> color)) option" where
  "collect_colored cfg rotated projected [] object_points = Some (Inr object_points)"
| "collect_colored cfg rotated projected (e # edges) object_points =
     (case colored_line rotated projected e of
        None \<Rightarrow> None
      | Some (Inl err) \<Rightarrow> Some (Inl err)
      | Some (Inr line_points) \<Rightarrow>
          on_value (plot_colored cfg object_points line_points)
            (collect_colored cfg rotated projected edges))"

text \<open>The loop over \<open>edges\<close>, with \<open>object_points\<close> a set (no colours).\<close>

fun collect_plain ::
  "config \<Rightarrow> (int \<times> int) list \<Rightarrow> (int \<times> int) list \<Rightarrow> (int \<times> int) set \<Rightarrow>
   (error + (int \<times> int) set) option" where
  "collect_plain cfg projected [] object_points = Some (Inr object_points)"
| "collect_plain cfg projected (e # edges) object_points =
     (case plain_line projected e of
        None \<Rightarrow> None
      | Some (Inl err) \<Rightarrow> Some (Inl err)
      | Some (Inr line_points) \<Rightarrow>
          on_value (plot_plain cfg object_points line_points)
            (collect_plain cfg projected edges))"

datatype frame_points = ColorPoints "int \<times> int \<rightharpoonup> color" | PlainPoints "(int \<times> int) set"

text \<open>
  One pass of the animation loop up to the frame's points: rotate, project, collect.
  \<open>use_colors\<close> is computed once, before the loop.
\<close>

definition compose_frame ::
  "config \<Rightarrow> bool \<Rightarrow> vertex list \<Rightarrow> (int \<times> int) list \<Rightarrow> real \<Rightarrow> real \<Rightarrow> real \<Rightarrow>
   (error + frame_points) option" where
  "compose_frame cfg use_colors vertices edges angle_x angle_y angle_z =
     on_value (rotate_all use_colors vertices angle_x angle_y angle_z) (\<lambda>rotated.
     on_value (project_all cfg rotated) (\<lambda>projected.
       if use_colors then
         map_option (map_sum id ColorPoints)
           (collect_colored cfg rotated projected edges Map.empty)
       else
         map_option (map_sum id PlainPoints)
           (collect_plain cfg projected edges {})))"

section \<open>The frame on the terminal\<close>

text \<open>The decimal digits that \<open>format\<close> writes for an integer.\<close>

function str_nat :: "nat \<Rightarrow> string" where
  "str_nat n =
     (if n < 10 then [char_of (48 + n)]
      else str_nat (n div 10) @ [char_of (48 + n mod 10)])"
  by pat_completeness auto
termination
  by (relation "measure (\<lambda>n. n)") auto

definition str_int :: "int \<Rightarrow> string" where
  "str_int i = (if i < 0 then CHR ''-'' # str_nat (nat (- i)) else str_nat (nat i))"

text \<open>
  What is written for the cell \<open>(x, y)\<close>. In colour mode \<open>col\<close> is a tuple of three
  when the key is present, and such a tuple is true.
\<close>

definition cell :: "config \<Rightarrow> frame_points \<Rightarrow> int \<Rightarrow> int \<Rightarrow> string" where
  "cell cfg object_points x y =
     (case object_points of
        ColorPoints d \<Rightarrow>
          (case d (x, y) of
             Some (r, g, b) \<Rightarrow>
               CHR 0x1B # ''[38;2;'' @ str_int r @ '';'' @ str_int g @ '';'' @ str_int b @ ''m'' @
               LINE_CHAR cfg @ CHR 0x1B # ''[0m''
           | None \<Rightarrow> '' '')
      | PlainPoints s \<Rightarrow> (if (x, y) \<in> s then LINE_CHAR cfg else '' ''))"

text \<open>
  The text of one frame: the rows \<open>range(HEIGHT)\<close>, each the cells \<open>range(WIDTH)\<close> and
  a newline. Clearing the screen and the pause are not modelled.
\<close>

definition draw_frame :: "config \<Rightarrow> frame_points \<Rightarrow> string" where
  "draw_frame cfg object_points =
     concat (map (\<lambda>y.
         concat (map (\<lambda>x. cell cfg object_points x y) (map int [0..<nat (WIDTH cfg)])) @
         [CHR 0x0A])
       (map int [0..<nat (HEIGHT cfg)]))"

section \<open>The animation loop\<close>

text \<open>
  The driver is \<open>Running\<close> with its three angles, or \<open>Terminated\<close> by the exception
  that the \<open>except Exception\<close> clause reports. (The interrupt from the keyboard is an
  event from outside and is not modelled.)
\<close>

datatype driver = Running real real real | Terminated error

text \<open>
  The first \<open>n\<close> passes of \<open>while True\<close>: the frames written, and the state after
  them. A pass that raises writes no frame.
\<close>

fun run_frames ::
  "nat \<Rightarrow> config \<Rightarrow> bool \<Rightarrow> vertex list \<Rightarrow> (int \<times> int) list \<Rightarrow> real \<Rightarrow> real \<Rightarrow> real \<Rightarrow>
   (string list \<times> driver) option" where
  "run_frames 0 cfg use_colors vertices edges angle_x angle_y angle_z =
     Some ([], Running angle_x angle_y angle_z)"
| "run_frames (Suc n) cfg use_colors vertices edges angle_x angle_y angle_z =
     (case compose_frame cfg use_colors vertices edges angle_x angle_y angle_z of
        None \<Rightarrow> None
      | Some (Inl e) \<Rightarrow> Some ([], Terminated e)
      | Some (Inr object_points) \<Rightarrow>
          map_option (\<lambda>(frames, d). (draw_frame cfg object_points # frames, d))
            (run_frames n cfg use_colors vertices edges
               (angle_x + ROT_SPEED_X cfg) (angle_y + ROT_SPEED_Y cfg)
               (angle_z + ROT_SPEED_Z cfg)))"

text \<open>The script from its \<open>try\<close>: \<open>use_colors\<close>, the angles at zero, the loop.\<close>

definition run_script ::
  "nat \<Rightarrow> config \<Rightarrow> vertex list \<Rightarrow> (int \<times> int) list \<Rightarrow> (string list \<times> driver) option" where
  "run_script n cfg vertices edges =
     run_frames n cfg (use_colors_of vertices) vertices edges 0 0 0"

section \<open>The exporter\<close>

record props =
  prop_width :: int
  prop_height :: int
  prop_scale_x :: real
  prop_scale_y :: real
  prop_dist :: real
  prop_line_char :: string
  prop_pause :: real
  prop_rot_speed_x :: real
  prop_rot_speed_y :: real
  prop_rot_speed_z :: real
  prop_use_vertex_colors :: bool

text \<open>The default values of \<open>RotatingASCIIProperties\<close>.\<close>

definition default_props :: props where
  "default_props =
     \<lparr>prop_width = 80, prop_height = 24, prop_scale_x = 20, prop_scale_y = 10, prop_dist = 4,
      prop_line_char = ''#'', prop_pause = 5 / 100, prop_rot_speed_x = 3 / 100,
      prop_rot_speed_y = 2 / 100, prop_rot_speed_z = 1 / 100, prop_use_vertex_colors = False\<rparr>"

record color_attribute =
  attr_domain :: string
  attr_data :: "(real \<times> real \<times> real \<times> real) list"

record mesh =
  mesh_vertices :: "(real \<times> real \<times> real) list"
  mesh_edges :: "(int \<times> int) list"
  mesh_active_color :: "color_attribute option"

datatype object = MeshObject mesh | OtherObject

text \<open>The constants at the head of the generated script.\<close>

definition config_of :: "props \<Rightarrow> config" where
  "config_of p =
     \<lparr>WIDTH = prop_width p, HEIGHT = prop_height p, SCALE_X = prop_scale_x p,
      SCALE_Y = prop_scale_y p, LINE_CHAR = prop_line_char p, PAUSE = prop_pause p,
      DIST = prop_dist p, ROT_SPEED_X = prop_rot_speed_x p, ROT_SPEED_Y = prop_rot_speed_y p,
      ROT_SPEED_Z = prop_rot_speed_z p\<rparr>"

text \<open>The operations of \<open>Vector\<close> that \<open>execute\<close> uses.\<close>

type_synonym vector = "real \<times> real \<times> real"

definition vector_sub :: "vector \<Rightarrow> vector \<Rightarrow> vector" where
  "vector_sub u v = (case (u, v) of ((x, y, z), (x', y', z')) \<Rightarrow> (x - x', y - y', z - z'))"

definition vector_scale :: "vector \<Rightarrow> real \<Rightarrow> vector" where
  "vector_scale v c = (case v of (x, y, z) \<Rightarrow> (x * c, y * c, z * c))"

definition vector_length :: "vector \<Rightarrow> real" where
  "vector_length v = (case v of (x, y, z) \<Rightarrow> sqrt (x * x + y * y + z * z))"

definition vector_mean :: "vector list \<Rightarrow> vector" where
  "vector_mean vs =
     (sum_list (map fst vs) / real (length vs),
      sum_list (map (fst \<circ> snd) vs) / real (length vs),
      sum_list (map (snd \<circ> snd) vs) / real (length vs))"

text \<open>The loop over \<open>enumerate(mesh.vertices)\<close> with colours, from index \<open>i\<close>.\<close>

fun colored_vertices ::
  "vector \<Rightarrow> real \<Rightarrow> (real \<times> real \<times> real \<times> real) list \<Rightarrow> int \<Rightarrow> vector list \<Rightarrow>
   error + vertex list" where
  "colored_vertices center scale_factor data i [] = Inr []"
| "colored_vertices center scale_factor data i (v # vs) =
     (case py_get data i of
        Inl e \<Rightarrow> Inl e
      | Inr (cr, cg, cb, ca) \<Rightarrow>
          (case colored_vertices center scale_factor data (i + 1) vs of
             Inl e \<Rightarrow> Inl e
           | Inr vertices \<Rightarrow>
               Inr ((vector_scale (vector_sub v center) scale_factor,
                     Some (py_int (cr * 255), py_int (cg * 255), py_int (cb * 255))) # vertices)))"

text \<open>
  What \<open>execute\<close> ends with: cancelled with the error it reports, or finished with the
  script written (its constants, vertices and edges).
\<close>

datatype outcome =
  CANCELLED string
| FINISHED config "vertex list" "(int \<times> int) list"

definition execute :: "object option \<Rightarrow> props \<Rightarrow> error + outcome" where
  "execute obj p =
     (case obj of
        None \<Rightarrow> Inr (CANCELLED ''Please select a mesh object'')
      | Some OtherObject \<Rightarrow> Inr (CANCELLED ''Please select a mesh object'')
      | Some (MeshObject m) \<Rightarrow>
          if length (mesh_vertices m) = 0 then Inr (CANCELLED ''Mesh has no vertices'')
          else
            (let center = vector_mean (mesh_vertices m);
                 max_dist =
                   Max (set (map (\<lambda>v. vector_length (vector_sub v center)) (mesh_vertices m)));
                 scale_factor = (if max_dist > 0 then 1 / max_dist else 1);
                 color_data =
                   (if prop_use_vertex_colors p then
                      (case mesh_active_color m of
                         None \<Rightarrow> None
                       | Some color_attr \<Rightarrow>
                           if attr_domain color_attr = ''POINT'' then Some (attr_data color_attr)
                           else None)
                    else None)
             in
               (case
                  (case color_data of
                     Some data \<Rightarrow>
                       colored_vertices center scale_factor data 0 (mesh_vertices m)
                   | None \<Rightarrow>
                       Inr (map (\<lambda>v. (vector_scale (vector_sub v center) scale_factor, None))
                         (mesh_vertices m)))
                of
                  Inl e \<Rightarrow> Inl e
                | Inr vertices \<Rightarrow> Inr (FINISHED (config_of p) vertices (mesh_edges m)))))"

section \<open>The loop of bresenham, step by step\<close>

text \<open>
  What one iteration of the loop does to \<open>err\<close>, \<open>current_x\<close> and \<open>current_y\<close>
  (both tests read \<open>e2 = 2 * err\<close>, taken before either update).
\<close>

definition next_err :: "int \<Rightarrow> int \<Rightarrow> int \<Rightarrow> int" where
  "next_err dx dy err =
     (if 2 * err > - dy then err - dy else err) + (if 2 * err < dx then dx else 0)"

definition next_x :: "int \<Rightarrow> int \<Rightarrow> int \<Rightarrow> int \<Rightarrow> int" where
  "next_x dy sx err current_x = (if 2 * err > - dy then current_x + sx else current_x)"

definition next_y :: "int \<Rightarrow> int \<Rightarrow> int \<Rightarrow> int \<Rightarrow> int" where
  "next_y dx sy err current_y = (if 2 * err < dx then current_y + sy else current_y)"

text \<open>
  The loop invariant: \<open>a\<close> and \<open>b\<close> are the steps still to be made along x and y.
\<close>

definition bres_inv ::
  "int \<Rightarrow> int \<Rightarrow> int \<Rightarrow> int \<Rightarrow> int \<Rightarrow> int \<Rightarrow> int \<Rightarrow> int \<Rightarrow> int \<Rightarrow> int \<Rightarrow> int \<Rightarrow> bool" where
  "bres_inv x2 y2 dx dy sx sy err current_x current_y a b =
     (0 \<le> a \<and> a \<le> dx \<and> 0 \<le> b \<and> b \<le> dy \<and> abs sx = 1 \<and> abs sy = 1 \<and>
      x2 = current_x + sx * a \<and> y2 = current_y + sy * b \<and>
      err = dx - dy + a * dy - b * dx \<and>
      (if dy \<le> dx then dx - 2 * dy \<le> 2 * err \<and> (dx \<noteq> dy \<or> err = 0)
       else 2 * err \<le> 2 * dx - dy))"

text \<open>
  The points of \<open>n + 1\<close> consecutive iterations, none of them the last.
\<close>

fun line_trace ::
  "nat \<Rightarrow> color option \<Rightarrow> color option \<Rightarrow> int \<Rightarrow> int \<Rightarrow> int \<Rightarrow> int \<Rightarrow> int \<Rightarrow>
   int \<Rightarrow> int \<Rightarrow> int \<Rightarrow> int \<Rightarrow> point list" where
  "line_trace 0 color1 color2 dx dy sx sy steps err k current_x current_y =
     [emit color1 color2 steps k current_x current_y]"
| "line_trace (Suc n) color1 color2 dx dy sx sy steps err k current_x current_y =
     emit color1 color2 steps k current_x current_y #
     line_trace n color1 color2 dx dy sx sy steps (next_err dx dy err) (k + 1)
       (next_x dy sx err current_x) (next_y dx sy err current_y)"

text \<open>The colour of the point emitted in iteration \<open>k\<close> (\<open>None\<close> without colours).\<close>

definition line_color :: "color option \<Rightarrow> color option \<Rightarrow> int \<Rightarrow> int \<Rightarrow> color option" where
  "line_color color1 color2 steps k = snd (emit color1 color2 steps k 0 0)"

section \<open>Predicates for the statements about the frame\<close>

text \<open>An index that \<open>xs[i]\<close> accepts.\<close>

definition valid_index :: "'a list \<Rightarrow> int \<Rightarrow> bool" where
  "valid_index xs i = (- int (length xs) \<le> i \<and> i < int (length xs))"

text \<open>The cells of the canvas.\<close>

definition canvas :: "config \<Rightarrow> (int \<times> int) set" where
  "canvas cfg = {p. in_bounds cfg (fst p) (snd p)}"

text \<open>
  How far the point \<open>q\<close> lies ahead of \<open>(cx, cy)\<close> along the axis that every
  iteration steps.
\<close>

definition progress :: "int \<Rightarrow> int \<Rightarrow> int \<Rightarrow> int \<Rightarrow> int \<Rightarrow> int \<Rightarrow> int \<times> int \<Rightarrow> int" where
  "progress dx dy sx sy cx cy q =
     (if dy \<le> dx then sx * (fst q - cx) else sy * (snd q - cy))"

section \<open>Facts about int()\<close>



section \<open>Facts about bresenham\<close>

lemma bresenham_loop_break:
  "current_x = x2 \<Longrightarrow> current_y = y2 \<Longrightarrow>
   bresenham_loop color1 color2 x2 y2 dx dy sx sy steps points err k current_x current_y =
     Some (points @ [emit color1 color2 steps k current_x current_y])"
  by (rule trans [OF bresenham_loop.simps]) simp

lemma bresenham_loop_continue:
  "\<not> (current_x = x2 \<and> current_y = y2) \<Longrightarrow>
   bresenham_loop color1 color2 x2 y2 dx dy sx sy steps points err k current_x current_y =
     bresenham_loop color1 color2 x2 y2 dx dy sx sy steps
       (points @ [emit color1 color2 steps k current_x current_y])
       (next_err dx dy err) (k + 1) (next_x dy sx err current_x) (next_y dx sy err current_y)"
  by (rule trans [OF bresenham_loop.simps]) (auto simp add: Let_def next_err_def next_x_def next_y_def)

lemma inv_target:
  assumes "bres_inv x2 y2 dx dy sx sy err cx cy a b"
  shows "(cx = x2 \<and> cy = y2) = (a = 0 \<and> b = 0)"
  using assms unfolding bres_inv_def by (auto simp: abs_if split: if_splits)

lemma inv_x_steps:
  assumes "bres_inv x2 y2 dx dy sx sy err cx cy a b" "\<not> (a = 0 \<and> b = 0)" "dy \<le> dx"
  shows "2 * err > - dy"
  using assms unfolding bres_inv_def by (auto split: if_splits)

lemma inv_y_steps:
  assumes "bres_inv x2 y2 dx dy sx sy err cx cy a b" "dx < dy"
  shows "2 * err < dx"
  using assms unfolding bres_inv_def by (auto split: if_splits)

lemma inv_x_stays:
  assumes "bres_inv x2 y2 dx dy sx sy err cx cy a b" "a = 0" "b \<noteq> 0"
  shows "\<not> 2 * err > - dy"
proof -
  from assms have b: "1 \<le> b" "0 \<le> dx" "0 \<le> dy" and e: "err = dx - dy - b * dx"
    unfolding bres_inv_def by auto
  from b have "dx \<le> b * dx" by (simp add: mult_le_cancel_right1)
  with e b show ?thesis by linarith
qed

lemma inv_y_stays:
  assumes "bres_inv x2 y2 dx dy sx sy err cx cy a b" "b = 0" "a \<noteq> 0"
  shows "\<not> 2 * err < dx"
proof -
  from assms have a: "1 \<le> a" "0 \<le> dx" "0 \<le> dy" and e: "err = dx - dy + a * dy"
    unfolding bres_inv_def by auto
  from a have "dy \<le> a * dy" by (simp add: mult_le_cancel_right1)
  with e a show ?thesis by linarith
qed

lemma inv_step:
  assumes inv: "bres_inv x2 y2 dx dy sx sy err cx cy a b" and ne: "\<not> (a = 0 \<and> b = 0)"
  shows "bres_inv x2 y2 dx dy sx sy (next_err dx dy err) (next_x dy sx err cx)
           (next_y dx sy err cy) (if 2 * err > - dy then a - 1 else a)
           (if 2 * err < dx then b - 1 else b)"
proof -
  have xs: "a \<noteq> 0" if "2 * err > - dy"
    using inv_x_stays [OF inv] ne that by blast
  have ys: "b \<noteq> 0" if "2 * err < dx"
    using inv_y_stays [OF inv] ne that by blast
  show ?thesis
  proof (cases "2 * err > - dy")
    case True
    note x = True
    show ?thesis
    proof (cases "2 * err < dx")
      case True
      with x xs ys inv show ?thesis
        unfolding bres_inv_def next_err_def next_x_def next_y_def
        by (auto simp: algebra_simps split: if_splits)
    next
      case False
      with x xs inv show ?thesis
        unfolding bres_inv_def next_err_def next_x_def next_y_def
        by (auto simp: algebra_simps split: if_splits)
    qed
  next
    case False
    note x = False
    show ?thesis
    proof (cases "2 * err < dx")
      case True
      with x ys inv show ?thesis
        unfolding bres_inv_def next_err_def next_x_def next_y_def
        by (auto simp: algebra_simps split: if_splits)
    next
      case False
      with x inv ne show ?thesis
        unfolding bres_inv_def next_err_def next_x_def next_y_def
        by (auto simp: algebra_simps split: if_splits)
    qed
  qed
qed

lemma fst_emit [simp]: "fst (emit color1 color2 steps k x y) = (x, y)"
  by (simp add: emit_def Let_def split: option.split prod.split)

lemma line_trace_not_Nil [simp]:
  "line_trace n color1 color2 dx dy sx sy steps err k cx cy \<noteq> []"
  by (cases n) simp_all

lemma loop_trace:
  "bres_inv x2 y2 dx dy sx sy err cx cy a b \<Longrightarrow>
   bresenham_loop color1 color2 x2 y2 dx dy sx sy steps points err k cx cy =
     Some (points @
       line_trace (nat (if dy \<le> dx then a else b)) color1 color2 dx dy sx sy steps err k cx cy) \<and>
   fst (last
     (line_trace (nat (if dy \<le> dx then a else b)) color1 color2 dx dy sx sy steps err k cx cy)) =
     (x2, y2)"
proof (induction "nat (a + b)" arbitrary: a b points err k cx cy rule: less_induct)
  case less
  note inv = less.prems
  show ?case
  proof (cases "a = 0 \<and> b = 0")
    case True
    with inv_target [OF inv] have "cx = x2" "cy = y2" by simp_all
    with True show ?thesis by (simp add: bresenham_loop_break)
  next
    case False
    define a' where "a' = (if 2 * err > - dy then a - 1 else a)"
    define b' where "b' = (if 2 * err < dx then b - 1 else b)"
    from inv have nonneg: "0 \<le> a" "0 \<le> b" by (simp_all add: bres_inv_def)
    have inv': "bres_inv x2 y2 dx dy sx sy (next_err dx dy err) (next_x dy sx err cx)
        (next_y dx sy err cy) a' b'"
      unfolding a'_def b'_def by (rule inv_step [OF inv False])
    then have nonneg': "0 \<le> a'" "0 \<le> b'" by (simp_all add: bres_inv_def)
    have dom: "(if dy \<le> dx then a' else b') = (if dy \<le> dx then a else b) - 1"
      using inv_x_steps [OF inv False] inv_y_steps [OF inv]
      by (auto simp: a'_def b'_def)
    have less: "nat (a' + b') < nat (a + b)"
      using dom nonneg nonneg' by (auto simp: a'_def b'_def split: if_splits)
    have suc: "nat (if dy \<le> dx then a else b) = Suc (nat (if dy \<le> dx then a' else b'))"
      using dom nonneg' by (auto split: if_splits)
    note IH = less.hyps [OF less inv']
    from False inv_target [OF inv] have "\<not> (cx = x2 \<and> cy = y2)" by simp
    then have "bresenham_loop color1 color2 x2 y2 dx dy sx sy steps points err k cx cy =
        bresenham_loop color1 color2 x2 y2 dx dy sx sy steps
          (points @ [emit color1 color2 steps k cx cy])
          (next_err dx dy err) (k + 1) (next_x dy sx err cx) (next_y dx sy err cy)"
      by (rule bresenham_loop_continue)
    also have "\<dots> = Some ((points @ [emit color1 color2 steps k cx cy]) @
        line_trace (nat (if dy \<le> dx then a' else b')) color1 color2 dx dy sx sy steps
          (next_err dx dy err) (k + 1) (next_x dy sx err cx) (next_y dx sy err cy))"
      by (rule IH [THEN conjunct1])
    finally have run: "bresenham_loop color1 color2 x2 y2 dx dy sx sy steps points err k cx cy =
        Some (points @
          line_trace (nat (if dy \<le> dx then a else b)) color1 color2 dx dy sx sy steps err k cx cy)"
      by (simp add: suc)
    have "fst (last
        (line_trace (nat (if dy \<le> dx then a' else b')) color1 color2 dx dy sx sy steps
          (next_err dx dy err) (k + 1) (next_x dy sx err cx) (next_y dx sy err cy))) = (x2, y2)"
      by (rule IH [THEN conjunct2])
    then have "fst (last
        (line_trace (nat (if dy \<le> dx then a else b)) color1 color2 dx dy sx sy steps err k cx cy)) =
        (x2, y2)"
      by (simp add: suc)
    with run show ?thesis by simp
  qed
qed

lemma bres_inv_start:
  "bres_inv x2 y2 (abs (x2 - x1)) (abs (y2 - y1)) (if x1 < x2 then 1 else - 1) (if y1 < y2 then 1 else - 1)
     ((abs (x2 - x1)) - (abs (y2 - y1))) x1 y1 (abs (x2 - x1)) (abs (y2 - y1))"
  by (auto simp: bres_inv_def abs_if algebra_simps)

lemma bresenham_trace:
  "bresenham x1 y1 x2 y2 color1 color2 =
     Some (line_trace (nat (max (abs (x2 - x1)) (abs (y2 - y1)))) color1 color2 (abs (x2 - x1)) (abs (y2 - y1))
       (if x1 < x2 then 1 else - 1) (if y1 < y2 then 1 else - 1)
       (max (max (abs (x2 - x1)) (abs (y2 - y1))) 1) ((abs (x2 - x1)) - (abs (y2 - y1))) 0 x1 y1)"
proof -
  have m: "(if (abs (y2 - y1)) \<le> (abs (x2 - x1)) then (abs (x2 - x1)) else (abs (y2 - y1))) = max (abs (x2 - x1)) (abs (y2 - y1))"
    by (simp add: max_def)
  show ?thesis
    unfolding bresenham_def Let_def
    by (simp only: loop_trace [OF bres_inv_start, THEN conjunct1] m append_Nil)
qed

lemma last_bresenham_trace:
  "fst (last (line_trace (nat (max (abs (x2 - x1)) (abs (y2 - y1)))) color1 color2
       (abs (x2 - x1)) (abs (y2 - y1))
       (if x1 < x2 then 1 else - 1) (if y1 < y2 then 1 else - 1)
       steps (abs (x2 - x1) - abs (y2 - y1)) k x1 y1)) = (x2, y2)"
proof -
  have m: "(if abs (y2 - y1) \<le> abs (x2 - x1) then abs (x2 - x1) else abs (y2 - y1)) =
      max (abs (x2 - x1)) (abs (y2 - y1))"
    by (simp add: max_def)
  have "fst (last (line_trace
      (nat (if abs (y2 - y1) \<le> abs (x2 - x1) then abs (x2 - x1) else abs (y2 - y1)))
      color1 color2 (abs (x2 - x1)) (abs (y2 - y1))
      (if x1 < x2 then 1 else - 1) (if y1 < y2 then 1 else - 1)
      steps (abs (x2 - x1) - abs (y2 - y1)) k x1 y1)) = (x2, y2)"
    by (rule loop_trace [OF bres_inv_start, THEN conjunct2])
  then show ?thesis
    by (simp only: m)
qed

lemma length_line_trace [simp]:
  "length (line_trace n color1 color2 dx dy sx sy steps err k cx cy) = Suc n"
  by (induction n arbitrary: err k cx cy) simp_all

lemma hd_line_trace:
  "hd (line_trace n color1 color2 dx dy sx sy steps err k cx cy) = emit color1 color2 steps k cx cy"
  by (cases n) simp_all

subsection \<open>Colours along the line\<close>

lemma snd_emit: "snd (emit color1 color2 steps k x y) = line_color color1 color2 steps k"
  by (simp add: line_color_def emit_def Let_def split: option.split prod.split)

lemma nth_line_trace_color:
  "i \<le> n \<Longrightarrow>
   snd (line_trace n color1 color2 dx dy sx sy steps err k cx cy ! i) =
     line_color color1 color2 steps (k + int i)"
proof (induction n arbitrary: i err k cx cy)
  case 0
  then show ?case by (simp add: snd_emit)
next
  case (Suc n)
  show ?case
  proof (cases i)
    case 0
    then show ?thesis by (simp add: snd_emit)
  next
    case (Suc j)
    with Suc.prems have "j \<le> n" by simp
    from Suc.IH [OF this] Suc show ?thesis by (simp add: add.assoc)
  qed
qed


lemma set_line_trace_color:
  assumes "p \<in> set (line_trace n color1 color2 dx dy sx sy steps err k cx cy)"
  shows "\<exists>i\<le>n. snd p = line_color color1 color2 steps (k + int i)"
proof -
  from assms obtain i where "i < Suc n"
      and "p = line_trace n color1 color2 dx dy sx sy steps err k cx cy ! i"
    by (auto simp: in_set_conv_nth)
  then have "i \<le> n \<and> snd p = line_color color1 color2 steps (k + int i)"
    by (simp add: nth_line_trace_color)
  then show ?thesis by blast
qed



lemma py_int_between:
  assumes "of_int lo \<le> r" "r \<le> of_int hi"
  shows "lo \<le> py_int r \<and> py_int r \<le> hi"
proof (cases "r < 0")
  case True
  then have "py_int r = \<lceil>r\<rceil>" by (simp add: py_int_def ceiling_def)
  moreover have "lo \<le> \<lceil>r\<rceil>"
  proof -
    have "r \<le> of_int \<lceil>r\<rceil>" by (rule le_of_int_ceiling)
    with assms(1) have "(of_int lo :: real) \<le> of_int \<lceil>r\<rceil>" by linarith
    then show ?thesis by simp
  qed
  moreover have "\<lceil>r\<rceil> \<le> hi" using assms(2) by (simp add: ceiling_le_iff)
  ultimately show ?thesis by simp
next
  case False
  then have "py_int r = \<lfloor>r\<rfloor>" by (simp add: py_int_def)
  moreover have "lo \<le> \<lfloor>r\<rfloor>" using assms(1) by (simp add: le_floor_iff)
  moreover have "\<lfloor>r\<rfloor> \<le> hi"
  proof -
    have "of_int \<lfloor>r\<rfloor> \<le> r" by (rule of_int_floor_le)
    with assms(2) have "(of_int \<lfloor>r\<rfloor> :: real) \<le> of_int hi" by linarith
    then show ?thesis by simp
  qed
  ultimately show ?thesis by simp
qed

lemma channel_between:
  assumes "0 \<le> t" "t \<le> 1"
  shows "min c1 c2 \<le> channel t c1 c2 \<and> channel t c1 c2 \<le> max c1 c2"
proof -
  define v where "v = of_int c1 + t * (of_int (c2 - c1) :: real)"
  have "of_int (min c1 c2) \<le> v \<and> v \<le> of_int (max c1 c2)"
  proof (cases "c1 \<le> c2")
    case True
    then have d: "0 \<le> (of_int (c2 - c1) :: real)" by simp
    have "0 \<le> t * of_int (c2 - c1)" using assms(1) d by (rule mult_nonneg_nonneg)
    moreover have "t * of_int (c2 - c1) \<le> 1 * (of_int (c2 - c1) :: real)"
      using assms(2) d by (rule mult_right_mono)
    ultimately show ?thesis using True by (simp add: v_def min_def max_def)
  next
    case False
    then have d: "0 \<le> (of_int (c1 - c2) :: real)" by simp
    have "0 \<le> t * of_int (c1 - c2)" using assms(1) d by (rule mult_nonneg_nonneg)
    moreover have "t * of_int (c1 - c2) \<le> 1 * (of_int (c1 - c2) :: real)"
      using assms(2) d by (rule mult_right_mono)
    ultimately show ?thesis using False by (simp add: v_def min_def max_def algebra_simps)
  qed
  then have l: "of_int (min c1 c2) \<le> v" and u: "v \<le> of_int (max c1 c2)"
    by blast+
  have "min c1 c2 \<le> py_int v \<and> py_int v \<le> max c1 c2"
    by (rule py_int_between [OF l u])
  then show ?thesis by (simp only: channel_def v_def)
qed



lemma line_color_between:
  assumes "0 \<le> k" "k \<le> steps" "0 < steps"
  shows "\<exists>r g b. line_color (Some (r1, g1, b1)) (Some (r2, g2, b2)) steps k = Some (r, g, b) \<and>
     min r1 r2 \<le> r \<and> r \<le> max r1 r2 \<and> min g1 g2 \<le> g \<and> g \<le> max g1 g2 \<and>
     min b1 b2 \<le> b \<and> b \<le> max b1 b2"
proof -
  define t where "t = (of_int k :: real) / of_int steps"
  from assms have t: "0 \<le> t" "t \<le> 1" by (simp_all add: t_def)
  have "line_color (Some (r1, g1, b1)) (Some (r2, g2, b2)) steps k =
      Some (channel t r1 r2, channel t g1 g2, channel t b1 b2)"
    by (simp add: line_color_def emit_def t_def Let_def)
  with channel_between [OF t] show ?thesis by blast
qed

section \<open>Facts about rotate_point\<close>

lemma plane_turn_back_1:
  "(u * cos t - v * sin t) * cos t + (u * sin t + v * cos t) * sin t = (u::real)"
proof -
  have "u * (cos t * cos t + sin t * sin t) = u"
    by (simp only: sin_cos_squared_add3 mult_1_right)
  then have "u * (cos t * cos t) + u * (sin t * sin t) = u"
    by (simp only: distrib_left)
  then show ?thesis
    by (simp add: algebra_simps)
qed

lemma plane_turn_back_2:
  "(u * sin t + v * cos t) * cos t - (u * cos t - v * sin t) * sin t = (v::real)"
proof -
  have "v * (cos t * cos t + sin t * sin t) = v"
    by (simp only: sin_cos_squared_add3 mult_1_right)
  then have "v * (cos t * cos t) + v * (sin t * sin t) = v"
    by (simp only: distrib_left)
  then show ?thesis
    by (simp add: algebra_simps)
qed

lemma rot_z_back:
  "rotate_point (x2 * cos az - y1 * sin az) (x2 * sin az + y1 * cos az) z2 0 0 (- az) = (x2, y1, z2)"
  using plane_turn_back_1 [of x2 az y1] plane_turn_back_2 [of x2 az y1]
  by (simp add: rotate_point_def Let_def algebra_simps)

lemma rot_y_back:
  "rotate_point (x * cos ay + z1 * sin ay) y1 (- x * sin ay + z1 * cos ay) 0 (- ay) 0 = (x, y1, z1)"
  using plane_turn_back_1 [of x ay "- z1"] plane_turn_back_2 [of "- x" ay z1]
  by (simp add: rotate_point_def Let_def algebra_simps)

lemma rot_x_back:
  "rotate_point x (y * cos ax - z * sin ax) (y * sin ax + z * cos ax) (- ax) 0 0 = (x, y, z)"
  using plane_turn_back_1 [of y ax z] plane_turn_back_2 [of y ax z]
  by (simp add: rotate_point_def Let_def algebra_simps)

section \<open>Properties of bresenham\<close>

text \<open>
  C2. For any two integer screen points, \<open>bresenham\<close> returns a sequence that is not
  empty, whose first point is the first endpoint and whose last point is the second.
\<close>

theorem bresenham_endpoints:
  "\<exists>pts. bresenham x1 y1 x2 y2 color1 color2 = Some pts \<and> pts \<noteq> [] \<and>
     fst (hd pts) = (x1, y1) \<and> fst (last pts) = (x2, y2)"
  by (simp add: bresenham_trace hd_line_trace last_bresenham_trace)

text \<open>
  C7. For any two integer screen endpoints, \<open>bresenham\<close> terminates, and it produces at
  most \<open>max(|x2 - x1|, |y2 - y1|) + 1\<close> points.
\<close>

theorem bresenham_length_bound:
  "\<exists>pts. bresenham x1 y1 x2 y2 color1 color2 = Some pts \<and>
     int (length pts) \<le> max (abs (x2 - x1)) (abs (y2 - y1)) + 1"
proof -
  have "0 \<le> max (abs (x2 - x1)) (abs (y2 - y1))"
    by (simp add: le_max_iff_disj)
  then show ?thesis
    by (simp add: bresenham_trace)
qed



text \<open>
  C10. With all channels of both endpoint colours in \<open>[0, 255]\<close>, every colour along the
  line has each channel between the corresponding channels of the endpoints, and so in
  \<open>[0, 255]\<close>.
\<close>

theorem bresenham_colors_between:
  assumes "0 \<le> r1 \<and> r1 \<le> 255 \<and> 0 \<le> g1 \<and> g1 \<le> 255 \<and> 0 \<le> b1 \<and> b1 \<le> 255"
    and "0 \<le> r2 \<and> r2 \<le> 255 \<and> 0 \<le> g2 \<and> g2 \<le> 255 \<and> 0 \<le> b2 \<and> b2 \<le> 255"
  shows "\<exists>pts. bresenham x1 y1 x2 y2 (Some (r1, g1, b1)) (Some (r2, g2, b2)) = Some pts \<and>
     (\<forall>p \<in> set pts. \<exists>r g b. snd p = Some (r, g, b) \<and>
        min r1 r2 \<le> r \<and> r \<le> max r1 r2 \<and> min g1 g2 \<le> g \<and> g \<le> max g1 g2 \<and>
        min b1 b2 \<le> b \<and> b \<le> max b1 b2 \<and>
        0 \<le> r \<and> r \<le> 255 \<and> 0 \<le> g \<and> g \<le> 255 \<and> 0 \<le> b \<and> b \<le> 255)"
proof -
  define m where "m = max (abs (x2 - x1)) (abs (y2 - y1))"
  define T where "T = line_trace (nat m) (Some (r1, g1, b1)) (Some (r2, g2, b2))
       (abs (x2 - x1)) (abs (y2 - y1))
       (if x1 < x2 then 1 else - 1) (if y1 < y2 then 1 else - 1)
       (max m 1) (abs (x2 - x1) - abs (y2 - y1)) 0 x1 y1"
  have m0: "0 \<le> m" by (simp add: m_def le_max_iff_disj)
  have run: "bresenham x1 y1 x2 y2 (Some (r1, g1, b1)) (Some (r2, g2, b2)) = Some T"
    unfolding T_def m_def by (rule bresenham_trace)
  have "\<exists>r g b. snd p = Some (r, g, b) \<and>
        min r1 r2 \<le> r \<and> r \<le> max r1 r2 \<and> min g1 g2 \<le> g \<and> g \<le> max g1 g2 \<and>
        min b1 b2 \<le> b \<and> b \<le> max b1 b2 \<and>
        0 \<le> r \<and> r \<le> 255 \<and> 0 \<le> g \<and> g \<le> 255 \<and> 0 \<le> b \<and> b \<le> 255"
    if "p \<in> set T" for p
  proof -
    from that obtain i where i: "i \<le> nat m"
        and p: "snd p = line_color (Some (r1, g1, b1)) (Some (r2, g2, b2)) (max m 1) (0 + int i)"
      unfolding T_def by (blast dest: set_line_trace_color)
    from i m0 have k: "0 \<le> 0 + int i" "0 + int i \<le> max m 1" "0 < max m 1" by simp_all
    from line_color_between [OF k, of r1 g1 b1 r2 g2 b2] p
    obtain r g b where "snd p = Some (r, g, b)"
      "min r1 r2 \<le> r" "r \<le> max r1 r2" "min g1 g2 \<le> g" "g \<le> max g1 g2"
      "min b1 b2 \<le> b" "b \<le> max b1 b2"
      by auto
    with assms show ?thesis by (auto simp: min_def max_def split: if_splits)
  qed
  with run show ?thesis by blast
qed

theorem bresenham_colors_between_witness:
  "(0 \<le> (255::int) \<and> (255::int) \<le> 255 \<and> 0 \<le> (0::int) \<and> (0::int) \<le> 255 \<and>
      0 \<le> (10::int) \<and> (10::int) \<le> 255) \<and>
   (0 \<le> (0::int) \<and> (0::int) \<le> 255 \<and> 0 \<le> (0::int) \<and> (0::int) \<le> 255 \<and>
      0 \<le> (255::int) \<and> (255::int) \<le> 255) \<and>
   (\<exists>pts. bresenham 0 0 2 1 (Some (255, 0, 10)) (Some (0, 0, 255)) = Some pts \<and>
     (\<forall>p \<in> set pts. \<exists>r g b. snd p = Some (r, g, b) \<and>
        min 255 0 \<le> r \<and> r \<le> max 255 0 \<and> min 0 0 \<le> g \<and> g \<le> max 0 0 \<and>
        min 10 255 \<le> b \<and> b \<le> max 10 255 \<and>
        0 \<le> r \<and> r \<le> 255 \<and> 0 \<le> g \<and> g \<le> 255 \<and> 0 \<le> b \<and> b \<le> 255))"
proof -
  have h1: "0 \<le> (255::int) \<and> (255::int) \<le> 255 \<and> 0 \<le> (0::int) \<and> (0::int) \<le> 255 \<and>
      0 \<le> (10::int) \<and> (10::int) \<le> 255"
    by simp
  have h2: "0 \<le> (0::int) \<and> (0::int) \<le> 255 \<and> 0 \<le> (0::int) \<and> (0::int) \<le> 255 \<and>
      0 \<le> (255::int) \<and> (255::int) \<le> 255"
    by simp
  from h1 h2 bresenham_colors_between [OF h1 h2, of 0 0 2 1] show ?thesis
    by blast
qed

section \<open>Properties of the projection\<close>




section \<open>Properties of rotate_point\<close>

text \<open>
  C8. Rotating by \<open>(0, 0, 0)\<close> returns the point, and rotating by \<open>(ax, ay, az)\<close>, then
  by \<open>-az\<close> about Z, then by \<open>-ay\<close> about Y, then by \<open>-ax\<close> about X returns the point
  (over the reals).
\<close>

theorem rotate_point_identity_and_inverse:
  "rotate_point x y z 0 0 0 = (x, y, z) \<and>
   (case rotate_point x y z ax ay az of (x3, y3, z3) \<Rightarrow>
      case rotate_point x3 y3 z3 0 0 (- az) of (x4, y4, z4) \<Rightarrow>
        case rotate_point x4 y4 z4 0 (- ay) 0 of (x5, y5, z5) \<Rightarrow>
          rotate_point x5 y5 z5 (- ax) 0 0) = (x, y, z)"
proof
  show "rotate_point x y z 0 0 0 = (x, y, z)"
    by (simp add: rotate_point_def)
next
  define y1 where "y1 = y * cos ax - z * sin ax"
  define z1 where "z1 = y * sin ax + z * cos ax"
  define x2 where "x2 = x * cos ay + z1 * sin ay"
  define z2 where "z2 = - x * sin ay + z1 * cos ay"
  have fwd: "rotate_point x y z ax ay az =
      (x2 * cos az - y1 * sin az, x2 * sin az + y1 * cos az, z2)"
    by (simp add: rotate_point_def Let_def y1_def z1_def x2_def z2_def)
  show "(case rotate_point x y z ax ay az of (x3, y3, z3) \<Rightarrow>
      case rotate_point x3 y3 z3 0 0 (- az) of (x4, y4, z4) \<Rightarrow>
        case rotate_point x4 y4 z4 0 (- ay) 0 of (x5, y5, z5) \<Rightarrow>
          rotate_point x5 y5 z5 (- ax) 0 0) = (x, y, z)"
  proof -
    have s1: "rotate_point (x2 * cos az - y1 * sin az) (x2 * sin az + y1 * cos az) z2 0 0 (- az) =
        (x2, y1, z2)"
      by (rule rot_z_back)
    have s2: "rotate_point x2 y1 z2 0 (- ay) 0 = (x, y1, z1)"
      unfolding x2_def z2_def by (rule rot_y_back)
    have s3: "rotate_point x y1 z1 (- ax) 0 0 = (x, y, z)"
      unfolding y1_def z1_def by (rule rot_x_back)
    show ?thesis
      by (simp only: fwd s1 s2 s3 prod.case)
  qed
qed

section \<open>The reversed line\<close>

lemma trace_reflect:
  "map fst (line_trace n color1 color2 dx dy (- sx) (- sy) steps err k (X - cx) (Y - cy)) =
   map (\<lambda>(x, y). (X - x, Y - y))
     (map fst (line_trace n color3 color4 dx dy sx sy steps' err k' cx cy))"
proof (induction n arbitrary: err k k' cx cy)
  case 0
  then show ?case by simp
next
  case (Suc n)
  have x: "next_x dy (- sx) err (X - cx) = X - next_x dy sx err cx"
    and y: "next_y dx (- sy) err (Y - cy) = Y - next_y dx sy err cy"
    by (simp_all add: next_x_def next_y_def)
  show ?case using Suc.IH by (simp add: x y)
qed

lemma trace_vertical:
  "0 \<le> dy \<Longrightarrow>
   map fst (line_trace n color1 color2 0 dy sx sy steps (- dy) k cx cy) =
   map fst (line_trace n color3 color4 0 dy sx' sy steps' (- dy) k' cx cy)"
proof (induction n arbitrary: k k' cy)
  case 0
  then show ?case by simp
next
  case (Suc n)
  from Suc.prems have e: "next_err 0 dy (- dy) = - dy"
    and x: "next_x dy sx (- dy) cx = cx" "next_x dy sx' (- dy) cx = cx"
    by (simp_all add: next_err_def next_x_def)
  show ?case by (simp add: e x Suc.IH [OF Suc.prems])
qed

lemma trace_horizontal:
  "0 \<le> dx \<Longrightarrow>
   map fst (line_trace n color1 color2 dx 0 sx sy steps dx k cx cy) =
   map fst (line_trace n color3 color4 dx 0 sx sy' steps' dx k' cx cy)"
proof (induction n arbitrary: k k' cx)
  case 0
  then show ?case by simp
next
  case (Suc n)
  from Suc.prems have e: "next_err dx 0 dx = dx"
    and y: "next_y dx sy dx cy = cy" "next_y dx sy' dx cy = cy"
    by (simp_all add: next_err_def next_y_def)
  show ?case by (simp add: e y Suc.IH [OF Suc.prems])
qed

text \<open>
  C3 (amended). The line from \<open>P2\<close> to \<open>P1\<close> is the line from \<open>P1\<close> to \<open>P2\<close>
  reflected through the midpoint of the two endpoints, point by point:
  \<open>(x, y)\<close> becomes \<open>(x1 + x2 - x, y1 + y2 - y)\<close>. So the two sets of coordinates are
  mirror images of each other (and of the same size); they need not be equal.
\<close>

theorem bresenham_reverse_reflects:
  "\<exists>ps qs. bresenham x1 y1 x2 y2 color1 color2 = Some ps \<and>
     bresenham x2 y2 x1 y1 color3 color4 = Some qs \<and>
     map fst qs = map (\<lambda>(x, y). (x1 + x2 - x, y1 + y2 - y)) (map fst ps) \<and>
     fst ` set qs = (\<lambda>(x, y). (x1 + x2 - x, y1 + y2 - y)) ` fst ` set ps"
proof -
  define dx where "dx = abs (x2 - x1)"
  define dy where "dy = abs (y2 - y1)"
  define n where "n = nat (max dx dy)"
  define steps where "steps = max (max dx dy) 1"
  define sx' where "sx' = (if x2 < x1 then 1 else - 1 :: int)"
  define sy' where "sy' = (if y2 < y1 then 1 else - 1 :: int)"
  define ps where "ps = line_trace n color1 color2 dx dy
    (if x1 < x2 then 1 else - 1) (if y1 < y2 then 1 else - 1) steps (dx - dy) 0 x1 y1"
  define qs where "qs = line_trace n color3 color4 dx dy sx' sy' steps (dx - dy) 0 x2 y2"
  have rev: "abs (x1 - x2) = dx" "abs (y1 - y2) = dy"
    by (simp_all add: dx_def dy_def abs_minus_commute)
  have fwd: "bresenham x1 y1 x2 y2 color1 color2 = Some ps"
    unfolding ps_def n_def steps_def dx_def dy_def by (rule bresenham_trace)
  have "bresenham x2 y2 x1 y1 color3 color4 =
      Some (line_trace (nat (max (abs (x1 - x2)) (abs (y1 - y2)))) color3 color4
        (abs (x1 - x2)) (abs (y1 - y2))
        (if x2 < x1 then 1 else - 1) (if y2 < y1 then 1 else - 1)
        (max (max (abs (x1 - x2)) (abs (y1 - y2))) 1) (abs (x1 - x2) - abs (y1 - y2)) 0 x2 y2)"
    by (rule bresenham_trace)
  then have bwd: "bresenham x2 y2 x1 y1 color3 color4 = Some qs"
    by (simp only: rev qs_def n_def steps_def sx'_def sy'_def)
  have "map fst ps =
      map fst (line_trace n color1 color2 dx dy (- sx') (if y1 < y2 then 1 else - 1) steps
        (dx - dy) 0 x1 y1)"
  proof (cases "x1 = x2")
    case True
    then have "dx = 0" by (simp add: dx_def)
    moreover have "0 \<le> dy" by (simp add: dy_def)
    ultimately show ?thesis
      unfolding ps_def using trace_vertical [of dy n color1 color2 _ _ steps 0 x1 y1 color1 color2 "- sx'" steps 0]
      by simp
  next
    case False
    then have "(if x1 < x2 then 1 else - 1) = - sx'" by (simp add: sx'_def)
    then show ?thesis by (simp only: ps_def)
  qed
  also have "\<dots> = map fst (line_trace n color1 color2 dx dy (- sx') (- sy') steps (dx - dy) 0 x1 y1)"
  proof (cases "y1 = y2")
    case True
    then have "dy = 0" by (simp add: dy_def)
    moreover have "0 \<le> dx" by (simp add: dx_def)
    ultimately show ?thesis
      using trace_horizontal [of dx n color1 color2 "- sx'" _ steps 0 x1 y1 color1 color2 "- sy'" steps 0]
      by simp
  next
    case False
    then have "(if y1 < y2 then 1 else - 1) = - sy'" by (simp add: sy'_def)
    then show ?thesis by (simp only:)
  qed
  finally have same: "map fst ps =
      map fst (line_trace n color1 color2 dx dy (- sx') (- sy') steps (dx - dy) 0 x1 y1)" .
  have "map fst (line_trace n color1 color2 dx dy (- sx') (- sy') steps (dx - dy) 0
        ((x1 + x2) - x2) ((y1 + y2) - y2)) =
      map (\<lambda>(x, y). ((x1 + x2) - x, (y1 + y2) - y)) (map fst qs)"
    unfolding qs_def by (rule trace_reflect)
  with same have "map fst ps = map (\<lambda>(x, y). (x1 + x2 - x, y1 + y2 - y)) (map fst qs)"
    by simp
  then have "map (\<lambda>(x, y). (x1 + x2 - x, y1 + y2 - y)) (map fst ps) = map fst qs"
    by (simp add: comp_def case_prod_beta)
  then have l: "map fst qs = map (\<lambda>(x, y). (x1 + x2 - x, y1 + y2 - y)) (map fst ps)"
    by simp
  from arg_cong [OF l, of set]
  have "fst ` set qs = (\<lambda>(x, y). (x1 + x2 - x, y1 + y2 - y)) ` fst ` set ps"
    by (simp only: set_map)
  with fwd bwd l show ?thesis by blast
qed

text \<open>
  C3 as stated fails for the endpoints \<open>(0, 0)\<close> and \<open>(2, 1)\<close>: one direction passes
  through \<open>(1, 0)\<close>, the other through \<open>(1, 1)\<close>.
\<close>

theorem bresenham_symmetry_counterexample:
  "bresenham 0 0 2 1 None None = Some [((0, 0), None), ((1, 0), None), ((2, 1), None)] \<and>
   bresenham 2 1 0 0 None None = Some [((2, 1), None), ((1, 1), None), ((0, 0), None)] \<and>
   (1, 0) \<in> fst ` set (the (bresenham 0 0 2 1 None None)) \<and>
   (1, 0) \<notin> fst ` set (the (bresenham 2 1 0 0 None None))"
  by (simp add: bresenham_def bresenham_loop_break bresenham_loop_continue emit_def next_err_def
      next_x_def next_y_def)

section \<open>Facts about the compositing loop\<close>

lemma py_get_valid:
  assumes "valid_index xs i"
  shows "\<exists>v. py_get xs i = Inr v \<and> v \<in> set xs"
proof (cases "0 \<le> i")
  case True
  with assms have "nat i < length xs" by (simp add: valid_index_def)
  then have "xs ! nat i \<in> set xs" by (rule nth_mem)
  moreover from True assms have "py_get xs i = Inr (xs ! nat i)"
    by (simp add: valid_index_def py_get_def)
  ultimately show ?thesis by simp
next
  case False
  with assms have "nat (int (length xs) + i) < length xs" by (simp add: valid_index_def)
  then have "xs ! nat (int (length xs) + i) \<in> set xs" by (rule nth_mem)
  moreover from False assms have "py_get xs i = Inr (xs ! nat (int (length xs) + i))"
    by (simp add: valid_index_def py_get_def)
  ultimately show ?thesis by simp
qed

lemma line_color_Some: "\<exists>c. line_color (Some color1) (Some color2) steps k = Some c"
  by (cases color1, cases color2) (simp add: line_color_def emit_def Let_def)

lemma line_color_None: "line_color None None steps k = None"
  by (simp add: line_color_def emit_def)

lemma line_trace_colored:
  assumes "p \<in> set (line_trace n (Some color1) (Some color2) dx dy sx sy steps err k cx cy)"
  shows "snd p \<noteq> None"
proof -
  from set_line_trace_color [OF assms] obtain i where
    "snd p = line_color (Some color1) (Some color2) steps (k + int i)" by blast
  with line_color_Some [of color1 color2 steps "k + int i"] show ?thesis by auto
qed

lemma line_trace_plain:
  assumes "p \<in> set (line_trace n None None dx dy sx sy steps err k cx cy)"
  shows "snd p = None"
proof -
  from set_line_trace_color [OF assms] obtain i where
    "snd p = line_color None None steps (k + int i)" by blast
  then show ?thesis by (simp add: line_color_None)
qed

lemma bresenham_colored_points:
  "\<exists>pts. bresenham x1 y1 x2 y2 (Some color1) (Some color2) = Some pts \<and>
     (\<forall>p \<in> set pts. snd p \<noteq> None)"
proof (intro exI conjI ballI)
  show "bresenham x1 y1 x2 y2 (Some color1) (Some color2) = Some
      (line_trace (nat (max (abs (x2 - x1)) (abs (y2 - y1)))) (Some color1) (Some color2)
        (abs (x2 - x1)) (abs (y2 - y1))
        (if x1 < x2 then 1 else - 1) (if y1 < y2 then 1 else - 1)
        (max (max (abs (x2 - x1)) (abs (y2 - y1))) 1) (abs (x2 - x1) - abs (y2 - y1)) 0 x1 y1)"
    by (rule bresenham_trace)
qed (rule line_trace_colored)

lemma bresenham_plain_points:
  "\<exists>pts. bresenham x1 y1 x2 y2 None None = Some pts \<and> (\<forall>p \<in> set pts. snd p = None)"
proof (intro exI conjI ballI)
  show "bresenham x1 y1 x2 y2 None None = Some
      (line_trace (nat (max (abs (x2 - x1)) (abs (y2 - y1)))) None None
        (abs (x2 - x1)) (abs (y2 - y1))
        (if x1 < x2 then 1 else - 1) (if y1 < y2 then 1 else - 1)
        (max (max (abs (x2 - x1)) (abs (y2 - y1))) 1) (abs (x2 - x1) - abs (y2 - y1)) 0 x1 y1)"
    by (rule bresenham_trace)
qed (rule line_trace_plain)

lemma plot_colored_total:
  "\<forall>p \<in> set pts. snd p \<noteq> None \<Longrightarrow> \<exists>d'. plot_colored cfg d pts = Inr d'"
proof (induction pts arbitrary: d)
  case Nil
  then show ?case by simp
next
  case (Cons p pts)
  then obtain px py col where p: "p = ((px, py), Some col)"
    by (cases p, cases "fst p", cases "snd p") auto
  from Cons.prems have "\<forall>p \<in> set pts. snd p \<noteq> None" by simp
  from Cons.IH [OF this] show ?case by (simp add: p)
qed

lemma plot_plain_total:
  "\<forall>p \<in> set pts. snd p = None \<Longrightarrow> \<exists>s'. plot_plain cfg s pts = Inr s'"
proof (induction pts arbitrary: s)
  case Nil
  then show ?case by simp
next
  case (Cons p pts)
  then obtain px py where p: "p = ((px, py), None)"
    by (cases p, cases "fst p") auto
  from Cons.prems have "\<forall>p \<in> set pts. snd p = None" by simp
  from Cons.IH [OF this] show ?case by (simp add: p)
qed

lemma plot_colored_bounds:
  "plot_colored cfg d pts = Inr d' \<Longrightarrow> dom d \<subseteq> canvas cfg \<Longrightarrow> dom d' \<subseteq> canvas cfg"
proof (induction pts arbitrary: d)
  case Nil
  then show ?case by simp
next
  case (Cons p pts)
  obtain px py c where p: "p = ((px, py), c)" by (cases p, cases "fst p") auto
  show ?case
  proof (cases c)
    case None
    with Cons.prems(1) p show ?thesis by simp
  next
    case (Some col)
    define d1 where "d1 = (if in_bounds cfg px py then d((px, py) \<mapsto> col) else d)"
    from Cons.prems(1) p Some have run: "plot_colored cfg d1 pts = Inr d'"
      by (simp add: d1_def)
    have "dom d1 \<subseteq> canvas cfg"
      using Cons.prems(2) by (simp add: d1_def canvas_def)
    from Cons.IH [OF run this] show ?thesis .
  qed
qed

lemma plot_plain_bounds:
  "plot_plain cfg s pts = Inr s' \<Longrightarrow> s \<subseteq> canvas cfg \<Longrightarrow> s' \<subseteq> canvas cfg"
proof (induction pts arbitrary: s)
  case Nil
  then show ?case by simp
next
  case (Cons p pts)
  obtain px py c where p: "p = ((px, py), c)" by (cases p, cases "fst p") auto
  show ?case
  proof (cases c)
    case (Some col)
    with Cons.prems(1) p show ?thesis by simp
  next
    case None
    define s1 where "s1 = (if in_bounds cfg px py then insert (px, py) s else s)"
    from Cons.prems(1) p None have run: "plot_plain cfg s1 pts = Inr s'"
      by (simp add: s1_def)
    have "s1 \<subseteq> canvas cfg"
      using Cons.prems(2) by (simp add: s1_def canvas_def)
    from Cons.IH [OF run this] show ?thesis .
  qed
qed

lemma collect_colored_step:
  assumes "collect_colored cfg rotated projected (e # edges) d = Some (Inr d')"
  shows "\<exists>pts d1. colored_line rotated projected e = Some (Inr pts) \<and>
    plot_colored cfg d pts = Inr d1 \<and>
    collect_colored cfg rotated projected edges d1 = Some (Inr d')"
proof (cases "colored_line rotated projected e")
  case None
  with assms show ?thesis by simp
next
  case (Some r)
  show ?thesis
  proof (cases r)
    case (Inl err)
    with Some assms show ?thesis by simp
  next
    case (Inr pts)
    show ?thesis
    proof (cases "plot_colored cfg d pts")
      case (Inl err)
      with Some \<open>r = Inr pts\<close> assms show ?thesis by (simp add: on_value_def)
    next
      case (Inr d1)
      with Some \<open>r = Inr pts\<close> assms show ?thesis by (simp add: on_value_def)
    qed
  qed
qed

lemma collect_plain_step:
  assumes "collect_plain cfg projected (e # edges) s = Some (Inr s')"
  shows "\<exists>pts s1. plain_line projected e = Some (Inr pts) \<and>
    plot_plain cfg s pts = Inr s1 \<and>
    collect_plain cfg projected edges s1 = Some (Inr s')"
proof (cases "plain_line projected e")
  case None
  with assms show ?thesis by simp
next
  case (Some r)
  show ?thesis
  proof (cases r)
    case (Inl err)
    with Some assms show ?thesis by simp
  next
    case (Inr pts)
    show ?thesis
    proof (cases "plot_plain cfg s pts")
      case (Inl err)
      with Some \<open>r = Inr pts\<close> assms show ?thesis by (simp add: on_value_def)
    next
      case (Inr s1)
      with Some \<open>r = Inr pts\<close> assms show ?thesis by (simp add: on_value_def)
    qed
  qed
qed

lemma collect_colored_bounds:
  "collect_colored cfg rotated projected edges d = Some (Inr d') \<Longrightarrow>
   dom d \<subseteq> canvas cfg \<Longrightarrow> dom d' \<subseteq> canvas cfg"
proof (induction edges arbitrary: d)
  case Nil
  then show ?case by simp
next
  case (Cons e edges)
  from collect_colored_step [OF Cons.prems(1)] obtain pts d1 where
    plot: "plot_colored cfg d pts = Inr d1" and
    rest: "collect_colored cfg rotated projected edges d1 = Some (Inr d')"
    by blast
  from plot_colored_bounds [OF plot Cons.prems(2)] have "dom d1 \<subseteq> canvas cfg" .
  from Cons.IH [OF rest this] show ?case .
qed

lemma collect_plain_bounds:
  "collect_plain cfg projected edges s = Some (Inr s') \<Longrightarrow>
   s \<subseteq> canvas cfg \<Longrightarrow> s' \<subseteq> canvas cfg"
proof (induction edges arbitrary: s)
  case Nil
  then show ?case by simp
next
  case (Cons e edges)
  from collect_plain_step [OF Cons.prems(1)] obtain pts s1 where
    plot: "plot_plain cfg s pts = Inr s1" and
    rest: "collect_plain cfg projected edges s1 = Some (Inr s')"
    by blast
  from plot_plain_bounds [OF plot Cons.prems(2)] have "s1 \<subseteq> canvas cfg" .
  from Cons.IH [OF rest this] show ?case .
qed

lemma colored_line_total:
  assumes "valid_index projected i" "valid_index projected j"
    and "length rotated = length projected" "\<forall>v \<in> set rotated. snd v \<noteq> None"
  shows "\<exists>pts. colored_line rotated projected (i, j) = Some (Inr pts) \<and>
    (\<forall>p \<in> set pts. snd p \<noteq> None)"
proof -
  from assms(1-3) have "valid_index rotated i" "valid_index rotated j"
    by (simp_all add: valid_index_def)
  then obtain vi vj where r: "py_get rotated i = Inr vi" "py_get rotated j = Inr vj"
    and "vi \<in> set rotated" "vj \<in> set rotated"
    using py_get_valid [of rotated i] py_get_valid [of rotated j] by blast
  with assms(4) obtain c1 c2 where c: "snd vi = Some c1" "snd vj = Some c2"
    by blast
  from assms(1,2) obtain p1 p2 where p: "py_get projected i = Inr p1" "py_get projected j = Inr p2"
    using py_get_valid [of projected i] py_get_valid [of projected j] by blast
  have "colored_line rotated projected (i, j) =
      map_option Inr (bresenham (fst p1) (snd p1) (fst p2) (snd p2) (Some c1) (Some c2))"
    by (simp add: colored_line_def on_value_def r p c)
  with bresenham_colored_points [of "fst p1" "snd p1" "fst p2" "snd p2" c1 c2]
  show ?thesis by auto
qed

lemma plain_line_total:
  assumes "valid_index projected i" "valid_index projected j"
  shows "\<exists>pts. plain_line projected (i, j) = Some (Inr pts) \<and> (\<forall>p \<in> set pts. snd p = None)"
proof -
  from assms obtain p1 p2 where p: "py_get projected i = Inr p1" "py_get projected j = Inr p2"
    using py_get_valid [of projected i] py_get_valid [of projected j] by blast
  have "plain_line projected (i, j) =
      map_option Inr (bresenham (fst p1) (snd p1) (fst p2) (snd p2) None None)"
    by (simp add: plain_line_def on_value_def p)
  with bresenham_plain_points [of "fst p1" "snd p1" "fst p2" "snd p2"]
  show ?thesis by auto
qed

lemma collect_colored_total:
  assumes "\<forall>(i, j) \<in> set edges. valid_index projected i \<and> valid_index projected j"
    and "length rotated = length projected" "\<forall>v \<in> set rotated. snd v \<noteq> None"
  shows "\<exists>d'. collect_colored cfg rotated projected edges d = Some (Inr d')"
  using assms(1)
proof (induction edges arbitrary: d)
  case Nil
  then show ?case by simp
next
  case (Cons e edges)
  obtain i j where e: "e = (i, j)" by (cases e)
  with Cons.prems have "valid_index projected i" "valid_index projected j" by auto
  from colored_line_total [OF this assms(2,3)] obtain pts where
    pts: "colored_line rotated projected (i, j) = Some (Inr pts)" "\<forall>p \<in> set pts. snd p \<noteq> None"
    by blast
  from plot_colored_total [OF pts(2)] obtain d1 where d1: "plot_colored cfg d pts = Inr d1"
    by blast
  from Cons.prems have "\<forall>(i, j) \<in> set edges. valid_index projected i \<and> valid_index projected j"
    by simp
  from Cons.IH [OF this, of d1] e pts(1) d1 show ?case
    by (simp add: on_value_def)
qed

lemma collect_plain_total:
  assumes "\<forall>(i, j) \<in> set edges. valid_index projected i \<and> valid_index projected j"
  shows "\<exists>s'. collect_plain cfg projected edges s = Some (Inr s')"
  using assms
proof (induction edges arbitrary: s)
  case Nil
  then show ?case by simp
next
  case (Cons e edges)
  obtain i j where e: "e = (i, j)" by (cases e)
  with Cons.prems have "valid_index projected i" "valid_index projected j" by auto
  from plain_line_total [OF this] obtain pts where
    pts: "plain_line projected (i, j) = Some (Inr pts)" "\<forall>p \<in> set pts. snd p = None"
    by blast
  from plot_plain_total [OF pts(2)] obtain s1 where s1: "plot_plain cfg s pts = Inr s1"
    by blast
  from Cons.prems have "\<forall>(i, j) \<in> set edges. valid_index projected i \<and> valid_index projected j"
    by simp
  from Cons.IH [OF this, of s1] e pts(1) s1 show ?case
    by (simp add: on_value_def)
qed

lemma canvasD: "S \<subseteq> canvas cfg \<Longrightarrow>
  \<forall>(x, y) \<in> S. 0 \<le> x \<and> x < WIDTH cfg \<and> 0 \<le> y \<and> y < HEIGHT cfg"
  by (auto simp: canvas_def in_bounds_def)

text \<open>
  C6. Every coordinate recorded in the frame's points lies in
  \<open>[0, WIDTH) \<times> [0, HEIGHT)\<close>, in colour mode and without colours, and points out of
  bounds raise nothing: with edge indices in range (and, in colour mode, a colour at
  every vertex) the loop over the edges returns its points, wherever the projected
  endpoints lie.
\<close>

theorem composited_points_in_bounds:
  "(\<forall>d. collect_colored cfg rotated projected edges Map.empty = Some (Inr d) \<longrightarrow>
      (\<forall>(x, y) \<in> dom d. 0 \<le> x \<and> x < WIDTH cfg \<and> 0 \<le> y \<and> y < HEIGHT cfg)) \<and>
   (\<forall>s. collect_plain cfg projected edges {} = Some (Inr s) \<longrightarrow>
      (\<forall>(x, y) \<in> s. 0 \<le> x \<and> x < WIDTH cfg \<and> 0 \<le> y \<and> y < HEIGHT cfg)) \<and>
   ((\<forall>(i, j) \<in> set edges. valid_index projected i \<and> valid_index projected j) \<longrightarrow>
      (\<exists>s. collect_plain cfg projected edges {} = Some (Inr s))) \<and>
   ((\<forall>(i, j) \<in> set edges. valid_index projected i \<and> valid_index projected j) \<and>
    length rotated = length projected \<and> (\<forall>v \<in> set rotated. snd v \<noteq> None) \<longrightarrow>
      (\<exists>d. collect_colored cfg rotated projected edges Map.empty = Some (Inr d)))"
proof (intro conjI allI impI)
  fix d
  assume "collect_colored cfg rotated projected edges Map.empty = Some (Inr d)"
  then have "dom d \<subseteq> canvas cfg" by (rule collect_colored_bounds) simp
  then show "\<forall>(x, y) \<in> dom d. 0 \<le> x \<and> x < WIDTH cfg \<and> 0 \<le> y \<and> y < HEIGHT cfg"
    by (rule canvasD)
next
  fix s
  assume "collect_plain cfg projected edges {} = Some (Inr s)"
  then have "s \<subseteq> canvas cfg" by (rule collect_plain_bounds) simp
  then show "\<forall>(x, y) \<in> s. 0 \<le> x \<and> x < WIDTH cfg \<and> 0 \<le> y \<and> y < HEIGHT cfg"
    by (rule canvasD)
next
  assume "\<forall>(i, j) \<in> set edges. valid_index projected i \<and> valid_index projected j"
  then show "\<exists>s. collect_plain cfg projected edges {} = Some (Inr s)"
    by (rule collect_plain_total)
next
  assume "(\<forall>(i, j) \<in> set edges. valid_index projected i \<and> valid_index projected j) \<and>
    length rotated = length projected \<and> (\<forall>v \<in> set rotated. snd v \<noteq> None)"
  then show "\<exists>d. collect_colored cfg rotated projected edges Map.empty = Some (Inr d)"
    using collect_colored_total [of edges projected rotated cfg Map.empty] by blast
qed

theorem composited_points_in_bounds_witness:
  "(\<exists>s. collect_plain default_config [(- 3, 2), (4, 30)] [(0, 1)] {} = Some (Inr s) \<and>
      (\<forall>(x, y) \<in> s. 0 \<le> x \<and> x < WIDTH default_config \<and> 0 \<le> y \<and> y < HEIGHT default_config)) \<and>
   (\<exists>d. collect_colored default_config
        [((0, 0, 0), Some (255, 0, 0)), ((0, 0, 0), Some (0, 0, 255))]
        [(- 3, 2), (4, 30)] [(0, 1)] Map.empty = Some (Inr d) \<and>
      (\<forall>(x, y) \<in> dom d. 0 \<le> x \<and> x < WIDTH default_config \<and> 0 \<le> y \<and> y < HEIGHT default_config))"
proof -
  have v: "\<forall>(i, j) \<in> set [(0, 1)].
      valid_index [(- 3 :: int, 2 :: int), (4, 30)] i \<and> valid_index [(- 3 :: int, 2 :: int), (4, 30)] j"
    by (simp add: valid_index_def)
  have l: "length [((0 :: real, 0 :: real, 0 :: real), Some (255 :: int, 0 :: int, 0 :: int)),
      ((0, 0, 0), Some (0, 0, 255))] = length [(- 3 :: int, 2 :: int), (4, 30)]"
    by simp
  have c: "\<forall>v \<in> set [((0 :: real, 0 :: real, 0 :: real), Some (255 :: int, 0 :: int, 0 :: int)),
      ((0, 0, 0), Some (0, 0, 255))]. snd v \<noteq> None"
    by simp
  from v l c
    composited_points_in_bounds [where cfg = default_config and edges = "[(0, 1)]"
      and projected = "[(- 3, 2), (4, 30)]"
      and rotated = "[((0, 0, 0), Some (255, 0, 0)), ((0, 0, 0), Some (0, 0, 255))]"]
  show ?thesis by blast
qed

section \<open>Last write wins\<close>

lemma inv_advance:
  assumes inv: "bres_inv x2 y2 dx dy sx sy err cx cy a b"
    and pos: "0 < (if dy \<le> dx then a else b)"
  shows "\<exists>a' b'. bres_inv x2 y2 dx dy sx sy (next_err dx dy err) (next_x dy sx err cx)
           (next_y dx sy err cy) a' b' \<and>
         (if dy \<le> dx then a' else b') = (if dy \<le> dx then a else b) - 1 \<and>
         (if dy \<le> dx then next_x dy sx err cx = cx + sx else next_y dx sy err cy = cy + sy)"
proof -
  from pos have ne: "\<not> (a = 0 \<and> b = 0)" by (auto split: if_splits)
  define a' where "a' = (if 2 * err > - dy then a - 1 else a)"
  define b' where "b' = (if 2 * err < dx then b - 1 else b)"
  have inv': "bres_inv x2 y2 dx dy sx sy (next_err dx dy err) (next_x dy sx err cx)
      (next_y dx sy err cy) a' b'"
    unfolding a'_def b'_def by (rule inv_step [OF inv ne])
  have x: "dy \<le> dx \<Longrightarrow> 2 * err > - dy" by (rule inv_x_steps [OF inv ne])
  have y: "dx < dy \<Longrightarrow> 2 * err < dx" by (rule inv_y_steps [OF inv])
  have "(if dy \<le> dx then a' else b') = (if dy \<le> dx then a else b) - 1"
    using x y by (auto simp: a'_def b'_def)
  moreover have "if dy \<le> dx then next_x dy sx err cx = cx + sx else next_y dx sy err cy = cy + sy"
    using x y by (auto simp: next_x_def next_y_def)
  ultimately show ?thesis using inv' by blast
qed

lemma trace_progress:
  "bres_inv x2 y2 dx dy sx sy err cx cy a b \<Longrightarrow> n = nat (if dy \<le> dx then a else b) \<Longrightarrow>
   p \<in> set (line_trace n color1 color2 dx dy sx sy steps err k cx cy) \<Longrightarrow>
   0 \<le> progress dx dy sx sy cx cy (fst p)"
proof (induction n arbitrary: a b err k cx cy)
  case 0
  then show ?case by (simp add: progress_def)
next
  case (Suc n)
  from Suc.prems(2) have pos: "0 < (if dy \<le> dx then a else b)" by linarith
  from inv_advance [OF Suc.prems(1) pos] obtain a' b' where
    inv': "bres_inv x2 y2 dx dy sx sy (next_err dx dy err) (next_x dy sx err cx)
           (next_y dx sy err cy) a' b'"
    and rem: "(if dy \<le> dx then a' else b') = (if dy \<le> dx then a else b) - 1"
    and mv: "if dy \<le> dx then next_x dy sx err cx = cx + sx else next_y dx sy err cy = cy + sy"
    by blast
  from rem Suc.prems(2) have n: "n = nat (if dy \<le> dx then a' else b')" by linarith
  from Suc.prems(1) have s: "sx * sx = 1" "sy * sy = 1"
    by (auto simp: bres_inv_def abs_if split: if_splits)
  from Suc.prems(3) consider "p = emit color1 color2 steps k cx cy"
    | "p \<in> set (line_trace n color1 color2 dx dy sx sy steps (next_err dx dy err) (k + 1)
         (next_x dy sx err cx) (next_y dx sy err cy))"
    by auto
  then show ?case
  proof cases
    case 1
    then show ?thesis by (simp add: progress_def)
  next
    case 2
    from Suc.IH [OF inv' n 2]
    have "0 \<le> progress dx dy sx sy (next_x dy sx err cx) (next_y dx sy err cy) (fst p)" .
    with mv s show ?thesis
      by (auto simp: progress_def algebra_simps split: if_splits)
  qed
qed

lemma trace_distinct:
  "bres_inv x2 y2 dx dy sx sy err cx cy a b \<Longrightarrow> n = nat (if dy \<le> dx then a else b) \<Longrightarrow>
   distinct (map fst (line_trace n color1 color2 dx dy sx sy steps err k cx cy))"
proof (induction n arbitrary: a b err k cx cy)
  case 0
  then show ?case by simp
next
  case (Suc n)
  from Suc.prems(2) have pos: "0 < (if dy \<le> dx then a else b)" by linarith
  from inv_advance [OF Suc.prems(1) pos] obtain a' b' where
    inv': "bres_inv x2 y2 dx dy sx sy (next_err dx dy err) (next_x dy sx err cx)
           (next_y dx sy err cy) a' b'"
    and rem: "(if dy \<le> dx then a' else b') = (if dy \<le> dx then a else b) - 1"
    and mv: "if dy \<le> dx then next_x dy sx err cx = cx + sx else next_y dx sy err cy = cy + sy"
    by blast
  from rem Suc.prems(2) have n: "n = nat (if dy \<le> dx then a' else b')" by linarith
  from Suc.prems(1) have s: "sx * sx = 1" "sy * sy = 1"
    by (auto simp: bres_inv_def abs_if split: if_splits)
  have "(cx, cy) \<notin> fst ` set (line_trace n color1 color2 dx dy sx sy steps (next_err dx dy err)
      (k + 1) (next_x dy sx err cx) (next_y dx sy err cy))"
  proof
    assume "(cx, cy) \<in> fst ` set (line_trace n color1 color2 dx dy sx sy steps
      (next_err dx dy err) (k + 1) (next_x dy sx err cx) (next_y dx sy err cy))"
    then obtain p where p: "p \<in> set (line_trace n color1 color2 dx dy sx sy steps
      (next_err dx dy err) (k + 1) (next_x dy sx err cx) (next_y dx sy err cy))"
      and "fst p = (cx, cy)" by auto
    with trace_progress [OF inv' n p]
    have "0 \<le> progress dx dy sx sy (next_x dy sx err cx) (next_y dx sy err cy) (cx, cy)"
      by simp
    with mv s show False
      by (auto simp: progress_def algebra_simps split: if_splits)
  qed
  with Suc.IH [OF inv' n] show ?case by simp
qed

lemma bresenham_distinct:
  assumes "bresenham x1 y1 x2 y2 color1 color2 = Some pts"
  shows "distinct (map fst pts)"
proof -
  have m: "nat (max (abs (x2 - x1)) (abs (y2 - y1))) =
      nat (if abs (y2 - y1) \<le> abs (x2 - x1) then abs (x2 - x1) else abs (y2 - y1))"
    by (simp add: max_def)
  from assms have "pts = line_trace (nat (max (abs (x2 - x1)) (abs (y2 - y1)))) color1 color2
       (abs (x2 - x1)) (abs (y2 - y1))
       (if x1 < x2 then 1 else - 1) (if y1 < y2 then 1 else - 1)
       (max (max (abs (x2 - x1)) (abs (y2 - y1))) 1) (abs (x2 - x1) - abs (y2 - y1)) 0 x1 y1"
    by (simp add: bresenham_trace)
  then show ?thesis
    using trace_distinct [OF bres_inv_start m] by simp
qed

lemma plot_colored_miss:
  "plot_colored cfg d pts = Inr d' \<Longrightarrow> q \<notin> fst ` set pts \<Longrightarrow> d' q = d q"
proof (induction pts arbitrary: d)
  case Nil
  then show ?case by simp
next
  case (Cons p pts)
  obtain px py c where p: "p = ((px, py), c)" by (cases p, cases "fst p") auto
  show ?case
  proof (cases c)
    case None
    with Cons.prems(1) p show ?thesis by simp
  next
    case (Some col)
    define d1 where "d1 = (if in_bounds cfg px py then d((px, py) \<mapsto> col) else d)"
    from Cons.prems(1) p Some have run: "plot_colored cfg d1 pts = Inr d'"
      by (simp add: d1_def)
    from Cons.prems(2) p have "q \<notin> fst ` set pts" "q \<noteq> (px, py)" by auto
    with Cons.IH [OF run] show ?thesis by (simp add: d1_def)
  qed
qed

lemma plot_colored_hit:
  "plot_colored cfg d pts = Inr d' \<Longrightarrow> distinct (map fst pts) \<Longrightarrow>
   ((x, y), Some col) \<in> set pts \<Longrightarrow> in_bounds cfg x y \<Longrightarrow> d' (x, y) = Some col"
proof (induction pts arbitrary: d)
  case Nil
  then show ?case by simp
next
  case (Cons p pts)
  obtain px py c where p: "p = ((px, py), c)" by (cases p, cases "fst p") auto
  show ?case
  proof (cases c)
    case None
    with Cons.prems(1) p show ?thesis by simp
  next
    case (Some col')
    define d1 where "d1 = (if in_bounds cfg px py then d((px, py) \<mapsto> col') else d)"
    from Cons.prems(1) p Some have run: "plot_colored cfg d1 pts = Inr d'"
      by (simp add: d1_def)
    from Cons.prems(2) p have dist: "distinct (map fst pts)" and fresh: "(px, py) \<notin> fst ` set pts"
      by simp_all
    show ?thesis
    proof (cases "((x, y), Some col) \<in> set pts")
      case True
      from Cons.IH [OF run dist True Cons.prems(4)] show ?thesis .
    next
      case False
      with Cons.prems(3) p Some have eq: "px = x" "py = y" "col' = col" by auto
      from plot_colored_miss [OF run fresh] have "d' (px, py) = d1 (px, py)" .
      with eq Cons.prems(4) show ?thesis by (simp add: d1_def)
    qed
  qed
qed

lemma colored_line_distinct:
  assumes "colored_line rotated projected e = Some (Inr pts)"
  shows "distinct (map fst pts)"
proof -
  obtain i j where e: "e = (i, j)" by (cases e)
  from assms e obtain x1 y1 x2 y2 c1 c2 where
    "bresenham x1 y1 x2 y2 (Some c1) (Some c2) = Some pts"
    by (auto simp: colored_line_def on_value_def split: sum.splits option.splits)
  then show ?thesis by (rule bresenham_distinct)
qed

lemma collect_colored_miss:
  "collect_colored cfg rotated projected edges d = Some (Inr d') \<Longrightarrow>
   \<forall>e \<in> set edges. \<forall>pts. colored_line rotated projected e = Some (Inr pts) \<longrightarrow>
     q \<notin> fst ` set pts \<Longrightarrow>
   d' q = d q"
proof (induction edges arbitrary: d)
  case Nil
  then show ?case by simp
next
  case (Cons e edges)
  from collect_colored_step [OF Cons.prems(1)] obtain pts d1 where
    line: "colored_line rotated projected e = Some (Inr pts)" and
    plot: "plot_colored cfg d pts = Inr d1" and
    rest: "collect_colored cfg rotated projected edges d1 = Some (Inr d')"
    by blast
  from Cons.prems(2) line have "q \<notin> fst ` set pts" by simp
  from plot_colored_miss [OF plot this] have "d1 q = d q" .
  moreover from Cons.prems(2) have "\<forall>e \<in> set edges. \<forall>pts.
      colored_line rotated projected e = Some (Inr pts) \<longrightarrow> q \<notin> fst ` set pts"
    by simp
  from Cons.IH [OF rest this] have "d' q = d1 q" .
  ultimately show ?case by simp
qed

lemma collect_colored_append:
  "collect_colored cfg rotated projected (es1 @ es2) d = Some (Inr d') \<Longrightarrow>
   \<exists>d1. collect_colored cfg rotated projected es1 d = Some (Inr d1) \<and>
     collect_colored cfg rotated projected es2 d1 = Some (Inr d')"
proof (induction es1 arbitrary: d)
  case Nil
  then show ?case by simp
next
  case (Cons e es1)
  from Cons.prems have "collect_colored cfg rotated projected (e # (es1 @ es2)) d = Some (Inr d')"
    by simp
  from collect_colored_step [OF this] obtain pts d0 where
    line: "colored_line rotated projected e = Some (Inr pts)" and
    plot: "plot_colored cfg d pts = Inr d0" and
    rest: "collect_colored cfg rotated projected (es1 @ es2) d0 = Some (Inr d')"
    by blast
  from Cons.IH [OF rest] obtain d1 where
    "collect_colored cfg rotated projected es1 d0 = Some (Inr d1)"
    "collect_colored cfg rotated projected es2 d1 = Some (Inr d')"
    by blast
  with line plot show ?case by (auto simp: on_value_def)
qed

lemma last_cover:
  assumes run: "collect_colored cfg rotated projected (before @ e # after) d0 = Some (Inr d)"
    and line: "colored_line rotated projected e = Some (Inr pts)"
    and hit: "((x, y), Some col) \<in> set pts"
    and inb: "in_bounds cfg x y"
    and later: "\<forall>e' \<in> set after. \<forall>pts'.
      colored_line rotated projected e' = Some (Inr pts') \<longrightarrow> (x, y) \<notin> fst ` set pts'"
  shows "d (x, y) = Some col"
proof -
  from collect_colored_append [OF run] obtain d1 where
    "collect_colored cfg rotated projected (e # after) d1 = Some (Inr d)"
    by blast
  from collect_colored_step [OF this] line obtain d2 where
    plot: "plot_colored cfg d1 pts = Inr d2" and
    rest: "collect_colored cfg rotated projected after d2 = Some (Inr d)"
    by auto
  from plot_colored_hit [OF plot colored_line_distinct [OF line] hit inb]
  have "d2 (x, y) = Some col" .
  with collect_colored_miss [OF rest later] show ?thesis by simp
qed

lemmas eval_line = colored_line_def on_value_def py_get_def bresenham_def bresenham_loop_break
  bresenham_loop_continue emit_def channel_def py_int_def next_err_def next_x_def next_y_def
  Let_def

text \<open>
  C5 (amended). In colour mode the colour of an in-bounds pixel in the frame is the one
  written by the last edge of the list whose line covers the pixel: an edge that
  covers it with the colour \<open>col\<close> and is followed by no edge covering it leaves
  \<open>col\<close> there, with no blending. (Of two edges that cover a pixel, the later one
  decides only when no edge after it covers the pixel too.)
\<close>

theorem last_covering_edge_wins:
  assumes "collect_colored cfg rotated projected (before @ e # after) Map.empty = Some (Inr d)"
    and "colored_line rotated projected e = Some (Inr pts)"
    and "((x, y), Some col) \<in> set pts"
    and "0 \<le> x \<and> x < WIDTH cfg \<and> 0 \<le> y \<and> y < HEIGHT cfg"
    and "\<forall>e' \<in> set after. \<forall>pts'.
      colored_line rotated projected e' = Some (Inr pts') \<longrightarrow> (x, y) \<notin> fst ` set pts'"
  shows "d (x, y) = Some col"
proof -
  from assms(4) have "in_bounds cfg x y" by (simp add: in_bounds_def)
  from last_cover [OF assms(1-3) this assms(5)] show ?thesis .
qed

theorem last_covering_edge_wins_witness:
  "\<exists>d. collect_colored default_config
       [((0, 0, 0), Some (255, 0, 0)), ((0, 0, 0), Some (0, 255, 0)),
        ((0, 0, 0), Some (0, 0, 255)), ((1, 0, 0), Some (255, 255, 255))]
       [(0, 0), (0, 0), (0, 0), (2, 0)]
       ([(0, 3), (1, 3)] @ (2, 3) # [(3, 3)]) Map.empty = Some (Inr d) \<and>
     d (0, 0) = Some (0, 0, 255)"
proof -
  define R :: "vertex list" where "R =
       [((0, 0, 0), Some (255, 0, 0)), ((0, 0, 0), Some (0, 255, 0)),
        ((0, 0, 0), Some (0, 0, 255)), ((1, 0, 0), Some (255, 255, 255))]"
  define P :: "(int \<times> int) list" where "P = [(0, 0), (0, 0), (0, 0), (2, 0)]"
  have "\<forall>(i, j) \<in> set ([(0, 3), (1, 3)] @ (2, 3) # [(3, 3)]). valid_index P i \<and> valid_index P j"
    by (simp add: valid_index_def P_def)
  moreover have "length R = length P" by (simp add: R_def P_def)
  moreover have "\<forall>v \<in> set R. snd v \<noteq> None" by (simp add: R_def)
  ultimately obtain d where
    run: "collect_colored default_config R P ([(0, 3), (1, 3)] @ (2, 3) # [(3, 3)]) Map.empty =
      Some (Inr d)"
    using collect_colored_total by blast
  have line: "colored_line R P (2, 3) =
      Some (Inr [((0, 0), Some (0, 0, 255)), ((1, 0), Some (127, 127, 255)),
        ((2, 0), Some (255, 255, 255))])"
    by (simp add: R_def P_def eval_line)
  have hit: "((0, 0), Some (0, 0, 255)) \<in> set [((0, 0), Some (0, 0, 255)),
      ((1, 0), Some (127, 127, 255)), ((2 :: int, 0 :: int), Some (255 :: int, 255 :: int, 255 :: int))]"
    by simp
  have inb: "0 \<le> (0 :: int) \<and> 0 < WIDTH default_config \<and> 0 \<le> (0 :: int) \<and> 0 < HEIGHT default_config"
    by (simp add: default_config_def)
  have later: "\<forall>e' \<in> set [(3, 3)]. \<forall>pts'.
      colored_line R P e' = Some (Inr pts') \<longrightarrow> (0, 0) \<notin> fst ` set pts'"
    by (auto simp: R_def P_def eval_line)
  from last_covering_edge_wins [OF run line hit inb later] run
  show ?thesis unfolding R_def P_def by blast
qed

text \<open>
  C5 as stated fails with three edges through one pixel: the edges \<open>(0, 3)\<close> and
  \<open>(1, 3)\<close> cover \<open>(0, 0)\<close> with red and green, the later of the two writes green, and
  the frame holds the blue of the edge \<open>(2, 3)\<close> that follows them.
\<close>

theorem later_of_two_edges_counterexample:
  "colored_line
     [((0, 0, 0), Some (255, 0, 0)), ((0, 0, 0), Some (0, 255, 0)),
      ((0, 0, 0), Some (0, 0, 255)), ((1, 0, 0), Some (255, 255, 255))]
     [(0, 0), (0, 0), (0, 0), (2, 0)] (0, 3) =
     Some (Inr [((0, 0), Some (255, 0, 0)), ((1, 0), Some (255, 127, 127)),
       ((2, 0), Some (255, 255, 255))]) \<and>
   colored_line
     [((0, 0, 0), Some (255, 0, 0)), ((0, 0, 0), Some (0, 255, 0)),
      ((0, 0, 0), Some (0, 0, 255)), ((1, 0, 0), Some (255, 255, 255))]
     [(0, 0), (0, 0), (0, 0), (2, 0)] (1, 3) =
     Some (Inr [((0, 0), Some (0, 255, 0)), ((1, 0), Some (127, 255, 127)),
       ((2, 0), Some (255, 255, 255))]) \<and>
   map_option (map_sum id (\<lambda>d. d (0, 0)))
     (collect_colored default_config
       [((0, 0, 0), Some (255, 0, 0)), ((0, 0, 0), Some (0, 255, 0)),
        ((0, 0, 0), Some (0, 0, 255)), ((1, 0, 0), Some (255, 255, 255))]
       [(0, 0), (0, 0), (0, 0), (2, 0)] [(0, 3), (1, 3), (2, 3)] Map.empty) =
     Some (Inr (Some (0, 0, 255)))"
  by (simp add: eval_line in_bounds_def default_config_def)

section \<open>An empty vertex list\<close>

lemma config_of_default_props: "config_of default_props = default_config"
  by (simp add: config_of_def default_props_def default_config_def)

lemma compose_frame_nothing:
  "compose_frame cfg False [] [] angle_x angle_y angle_z = Some (Inr (PlainPoints {}))"
  by (simp add: compose_frame_def on_value_def)

lemma py_get_Nil: "py_get [] i = Inl IndexError"
  by (auto simp: py_get_def)

lemma compose_frame_no_vertices:
  "compose_frame cfg False [] (e # edges) angle_x angle_y angle_z = Some (Inl IndexError)"
  by (cases e) (simp add: compose_frame_def on_value_def plain_line_def py_get_Nil)

lemma run_frames_nothing:
  "run_frames n cfg False [] [] angle_x angle_y angle_z =
     Some (replicate n (draw_frame cfg (PlainPoints {})),
       Running (angle_x + of_nat n * ROT_SPEED_X cfg) (angle_y + of_nat n * ROT_SPEED_Y cfg)
         (angle_z + of_nat n * ROT_SPEED_Z cfg))"
proof (induction n arbitrary: angle_x angle_y angle_z)
  case 0
  then show ?case by simp
next
  case (Suc n)
  show ?case
    by (simp add: compose_frame_nothing Suc.IH algebra_simps)
qed

lemma blank_rows:
  "concat (map (\<lambda>y. concat (map (\<lambda>x. cell cfg (PlainPoints {}) x y) xs) @ [CHR 0x0A]) ys) =
     concat (replicate (length ys) (replicate (length xs) CHR '' '' @ [CHR 0x0A]))"
proof -
  have row: "concat (map (\<lambda>x. cell cfg (PlainPoints {}) x y) xs) = replicate (length xs) CHR '' ''"
    for y
    by (induction xs) (simp_all add: cell_def)
  show ?thesis
    by (induction ys) (simp_all add: row)
qed

lemma draw_frame_blank:
  "draw_frame cfg (PlainPoints {}) =
     concat (replicate (nat (HEIGHT cfg)) (replicate (nat (WIDTH cfg)) CHR '' '' @ [CHR 0x0A]))"
  unfolding draw_frame_def blank_rows by simp

text \<open>
  C9 (amended). The exporter rejects a mesh with no vertices: it reports the error,
  returns cancelled and writes no script. The generated script itself checks nothing
  at its start: with an empty vertex list \<open>use_colors\<close> is false and the loop is
  entered; without edges every pass writes a blank frame, and with an edge the first
  pass raises \<open>IndexError\<close> before anything is written.
\<close>

theorem empty_vertex_list_handling:
  "(mesh_vertices m = [] \<longrightarrow>
      execute (Some (MeshObject m)) p = Inr (CANCELLED ''Mesh has no vertices'')) \<and>
   run_script n cfg [] [] =
     Some (replicate n (draw_frame cfg (PlainPoints {})),
       Running (of_nat n * ROT_SPEED_X cfg) (of_nat n * ROT_SPEED_Y cfg)
         (of_nat n * ROT_SPEED_Z cfg)) \<and>
   run_script (Suc n) cfg [] (e # edges) = Some ([], Terminated IndexError)"
  by (simp add: execute_def run_script_def use_colors_of_def run_frames_nothing
      compose_frame_no_vertices)

theorem empty_vertex_list_handling_witness:
  "mesh_vertices \<lparr>mesh_vertices = [], mesh_edges = [], mesh_active_color = None\<rparr> = [] \<and>
   execute (Some (MeshObject \<lparr>mesh_vertices = [], mesh_edges = [], mesh_active_color = None\<rparr>))
     default_props = Inr (CANCELLED ''Mesh has no vertices'')"
  using empty_vertex_list_handling
    [of "\<lparr>mesh_vertices = [], mesh_edges = [], mesh_active_color = None\<rparr>" default_props]
  by simp

text \<open>
  C9 as stated fails for the script: with no vertices and no edges and the default
  constants, the first pass of the loop writes a frame of 24 blank rows and the driver
  keeps running.
\<close>

theorem script_accepts_empty_vertex_list_counterexample:
  "run_script (Suc 0) default_config [] [] =
     Some ([concat (replicate 24 (replicate 80 CHR '' '' @ [CHR 0x0A]))],
       Running (3 / 100) (2 / 100) (1 / 100))"
  by (simp add: run_script_def use_colors_of_def compose_frame_nothing draw_frame_blank
      default_config_def)

end
